theory Spec2Isabelle
  imports Complex_Main "HOL-Library.Sublist"
begin

section \<open>Conventions of the embedding\<close>

text \<open>
  The development embeds \<^verbatim>\<open>src/server/regret_engine.py\<close>.

  \<^item> Python \<^verbatim>\<open>float\<close> quantities (health, regrets, probabilities, times) are
    modelled as \<^typ>\<open>real\<close>: arithmetic is exact, rounding is not modelled.
  \<^item> Python \<^verbatim>\<open>dict\<close> keeps insertion order; a dict is an association list
    with distinct keys, updated in place for a present key and extended at the end for a
    new one.
  \<^item> A \<^verbatim>\<open>defaultdict(float)\<close> inserts the key with \<open>0\<close> when a missing key is
    read with \<^verbatim>\<open>d[k]\<close>; the read therefore returns the new dict as well.
  \<^item> The two random draws of a learning round, the Gaussian noise added to the value of
    a strategy and the strategy drawn from the current policy, are inputs of the model.
\<close>

section \<open>Insertion-ordered dictionaries\<close>

fun dict_set :: "('k \<times> 'v) list \<Rightarrow> 'k \<Rightarrow> 'v \<Rightarrow> ('k \<times> 'v) list" where
  "dict_set [] k v = [(k, v)]"
| "dict_set ((k', v') # d) k v =
     (if k' = k then (k, v) # d else (k', v') # dict_set d k v)"

text \<open>\<^verbatim>\<open>d.get(k, dflt)\<close>\<close>

definition dict_get :: "('k \<times> 'v) list \<Rightarrow> 'k \<Rightarrow> 'v \<Rightarrow> 'v" where
  "dict_get d k dflt = (case map_of d k of None \<Rightarrow> dflt | Some v \<Rightarrow> v)"

text \<open>A dict comprehension \<^verbatim>\<open>{k: v for ...}\<close> over the pairs in order.\<close>

definition dict_of :: "('k \<times> 'v) list \<Rightarrow> ('k \<times> 'v) list" where
  "dict_of kvs = fold (\<lambda>(k, v) d. dict_set d k v) kvs []"

text \<open>\<^verbatim>\<open>d[k]\<close> on a \<^verbatim>\<open>defaultdict(float)\<close>: a missing key is inserted with 0.\<close>

definition dd_getitem :: "('k \<times> real) list \<Rightarrow> 'k \<Rightarrow> ('k \<times> real) list \<times> real" where
  "dd_getitem d k =
     (case map_of d k of None \<Rightarrow> (dict_set d k 0, 0) | Some v \<Rightarrow> (d, v))"

text \<open>\<^verbatim>\<open>d[k] += x\<close> on a \<^verbatim>\<open>defaultdict(float)\<close>.\<close>

definition dd_add :: "('k \<times> real) list \<Rightarrow> 'k \<Rightarrow> real \<Rightarrow> ('k \<times> real) list" where
  "dd_add d k x = (let (d', v) = dd_getitem d k in dict_set d' k (v + x))"

text \<open>\<^verbatim>\<open>d[k].append(x)\<close> on a \<^verbatim>\<open>defaultdict(list)\<close>.\<close>

definition dl_append :: "('k \<times> 'v list) list \<Rightarrow> 'k \<Rightarrow> 'v \<Rightarrow> ('k \<times> 'v list) list" where
  "dl_append d k x = dict_set d k (dict_get d k [] @ [x])"

text \<open>\<^verbatim>\<open>max(xs)\<close> of a non-empty sequence.\<close>

fun py_max :: "real list \<Rightarrow> real" where
  "py_max [] = 0"
| "py_max [x] = x"
| "py_max (x # y # ys) = max x (py_max (y # ys))"

text \<open>
  \<^verbatim>\<open>max(d, key=d.get)\<close>: the first key, in iteration order, whose value is maximal.
  On an empty dict Python raises \<^verbatim>\<open>ValueError\<close>, which is \<open>None\<close> here.
\<close>

fun py_max_key_from :: "'k \<Rightarrow> real \<Rightarrow> ('k \<times> real) list \<Rightarrow> 'k" where
  "py_max_key_from b bv [] = b"
| "py_max_key_from b bv ((k, v) # d) =
     (if v > bv then py_max_key_from k v d else py_max_key_from b bv d)"

fun py_max_key :: "('k \<times> real) list \<Rightarrow> 'k option" where
  "py_max_key [] = None"
| "py_max_key ((k, v) # d) = Some (py_max_key_from k v d)"

section \<open>The regret minimizer (class CFRRegretMinimizer)\<close>

record 'k iteration_entry =
  iteration :: int
  entry_strategy_values :: "('k \<times> real) list"
  selected_strategy :: 'k
  probabilities :: "('k \<times> real) list"
  reward :: real

record 'k CFRRegretMinimizer =
  regret_sum :: "('k \<times> real) list"
  strategy_sum :: "('k \<times> real) list"
  iteration_history :: "'k iteration_entry list"
  regret_history :: "real list"
  cumulative_regret :: real
  distance_to_optimal_history :: "real list"
  total_iterations :: int
  strategy_values :: "('k \<times> real list) list"
  prev_probs :: "('k \<times> real) list"

text \<open>\<^verbatim>\<open>CFRRegretMinimizer.__init__\<close>\<close>

definition cfr_init :: "'k CFRRegretMinimizer" where
  "cfr_init = \<lparr> regret_sum = [], strategy_sum = [], iteration_history = [],
     regret_history = [], cumulative_regret = 0, distance_to_optimal_history = [],
     total_iterations = 0, strategy_values = [], prev_probs = [] \<rparr>"

text \<open>
  The comprehension \<^verbatim>\<open>{s: max(0, self.regret_sum[s]) for s in strategies}\<close> reads
  the defaultdict once per strategy, in order; \<open>read_regrets\<close> returns the regret dict
  after these reads and the pairs of the comprehension.
\<close>

fun read_regrets ::
  "('k \<times> real) list \<Rightarrow> 'k list \<Rightarrow> ('k \<times> real) list \<times> ('k \<times> real) list" where
  "read_regrets d [] = (d, [])"
| "read_regrets d (s # ss) =
     (let (d1, r) = dd_getitem d s;
          (d2, rest) = read_regrets d1 ss
      in (d2, (s, max 0 r) # rest))"

definition get_strategy_probabilities ::
  "'k CFRRegretMinimizer \<Rightarrow> 'k list \<Rightarrow> 'k CFRRegretMinimizer \<times> ('k \<times> real) list" where
  "get_strategy_probabilities c strategies =
     (let (d, pairs) = read_regrets (regret_sum c) strategies;
          c' = c\<lparr>regret_sum := d\<rparr>;
          positive_regrets = dict_of pairs;
          total = sum_list (map snd positive_regrets)
      in if total > 0
         then (c', map (\<lambda>(s, r). (s, r / total)) positive_regrets)
         else (c', dict_of (map (\<lambda>s. (s, 1 / real (length strategies))) strategies)))"

text \<open>The loop \<^verbatim>\<open>for strategy, value in strategy_values.items()\<close> of update_regrets.\<close>

fun add_regrets ::
  "real \<Rightarrow> ('k \<times> real) list \<Rightarrow> 'k CFRRegretMinimizer \<Rightarrow> 'k CFRRegretMinimizer" where
  "add_regrets node_value [] c = c"
| "add_regrets node_value ((strategy, v) # rest) c =
     add_regrets node_value rest
       (c\<lparr>regret_sum := dd_add (regret_sum c) strategy (v - node_value),
          strategy_values := dl_append (strategy_values c) strategy v\<rparr>)"

text \<open>
  The node value \<^verbatim>\<open>sum(probs.get(s, 0) * strategy_values.get(s, 0) for s in strategies)\<close>.
\<close>

definition node_value_of :: "('k \<times> real) list \<Rightarrow> ('k \<times> real) list \<Rightarrow> 'k list \<Rightarrow> real" where
  "node_value_of probs svals strategies =
     sum_list (map (\<lambda>s. dict_get probs s 0 * dict_get svals s 0) strategies)"

text \<open>The equilibrium-distance diagnostic computed at the end of update_regrets.\<close>

definition distance_of :: "('k \<times> real) list \<Rightarrow> ('k \<times> real) list \<Rightarrow> 'k list \<Rightarrow> real" where
  "distance_of probs prev strategies =
     (let prob_values = map (\<lambda>s. dict_get probs s 0) strategies;
          mean_prob = (if prob_values \<noteq> [] then sum_list prob_values / real (length prob_values) else 0);
          variance = (if prob_values \<noteq> []
                      then sum_list (map (\<lambda>p. (p - mean_prob)\<^sup>2) prob_values) / real (length prob_values)
                      else 1);
          std_dev = sqrt variance
      in if prev \<noteq> []
         then std_dev
              + sqrt (sum_list (map (\<lambda>s. (dict_get probs s 0 - dict_get prev s 0)\<^sup>2) strategies)) * 0.5
         else std_dev)"

text \<open>
  \<^verbatim>\<open>update_regrets(strategy_values, selected_strategy)\<close>; the parameter
  \<open>svals\<close> is the dict \<^verbatim>\<open>strategy_values\<close>. The branch
  \<^verbatim>\<open>else: self.distance_to_optimal_history.append(1.0)\<close> is kept although the early
  return makes \<^verbatim>\<open>strategies\<close> non-empty there.
\<close>

definition update_regrets ::
  "'k CFRRegretMinimizer \<Rightarrow> ('k \<times> real) list \<Rightarrow> 'k \<Rightarrow> 'k CFRRegretMinimizer" where
  "update_regrets c svals selected =
     (if svals = [] then c
      else
        let strategies = map fst svals;
            (c1, probs) = get_strategy_probabilities c strategies;
            node_value = node_value_of probs svals strategies;
            c2 = add_regrets node_value svals c1;
            best_value = (if svals \<noteq> [] then py_max (map snd svals) else 0);
            instant_regret = best_value - node_value;
            c3 = c2\<lparr>cumulative_regret := cumulative_regret c2 + instant_regret\<rparr>;
            c4 = c3\<lparr>regret_history := regret_history c3 @ [cumulative_regret c3]\<rparr>;
            c7 = (if strategies \<noteq> []
                  then
                    let (c5, probs2) = get_strategy_probabilities c4 strategies;
                        distance = distance_of probs2 (prev_probs c5) strategies;
                        c6 = c5\<lparr>prev_probs := probs2\<rparr>
                    in c6\<lparr>distance_to_optimal_history := distance_to_optimal_history c6 @ [distance]\<rparr>
                  else c4\<lparr>distance_to_optimal_history := distance_to_optimal_history c4 @ [1]\<rparr>)
        in c7\<lparr>total_iterations := total_iterations c7 + 1\<rparr>)"

text \<open>\<^verbatim>\<open>get_average_strategy\<close>\<close>

definition get_average_strategy :: "'k CFRRegretMinimizer \<Rightarrow> ('k \<times> real) list" where
  "get_average_strategy c =
     (let total = sum_list (map snd (strategy_sum c))
      in if total > 0 then map (\<lambda>(s, v). (s, v / total)) (strategy_sum c) else [])"

text \<open>The loop \<^verbatim>\<open>for s, p in probs.items(): self.strategy_sum[s] += p\<close>.\<close>

fun add_strategy_sum :: "('k \<times> real) list \<Rightarrow> ('k \<times> real) list \<Rightarrow> ('k \<times> real) list" where
  "add_strategy_sum [] d = d"
| "add_strategy_sum ((s, p) # rest) d = add_strategy_sum rest (dd_add d s p)"

text \<open>\<^verbatim>\<open>record_iteration(strategy_values, selected, probs, reward)\<close>\<close>

definition record_iteration ::
  "'k CFRRegretMinimizer \<Rightarrow> ('k \<times> real) list \<Rightarrow> 'k \<Rightarrow> ('k \<times> real) list \<Rightarrow> real
     \<Rightarrow> 'k CFRRegretMinimizer" where
  "record_iteration c svals selected probs rew =
     (let c1 = c\<lparr>iteration_history := iteration_history c @
                  [\<lparr> iteration = total_iterations c, entry_strategy_values = svals,
                     selected_strategy = selected, probabilities = probs, reward = rew \<rparr>]\<rparr>
      in c1\<lparr>strategy_sum := add_strategy_sum probs (strategy_sum c1)\<rparr>)"

section \<open>The strategy catalog (StrategyGenerator.STRATEGIES)\<close>

text \<open>
  The catalog is a dict with six string keys, fixed in the source; its keys and the six
  priority strings are the constructors below, in the dict's order. The name of a
  constructor is the string of the source.
\<close>

datatype strategy =
  PARALLEL_CRITICAL | SEQUENTIAL_SEVERITY | DOCTOR_CRITICAL_NURSE_OTHERS
  | COOPERATIVE_ALL | NEAREST_FIRST | NURSE_TRIAGE_DOCTOR_TREAT

datatype priority = critical_first | severity | split_by_type | fifo | distance | role_based

record strategy_info =
  description :: string
  priority :: priority
  cooperation :: bool

definition STRATEGIES :: "(strategy \<times> strategy_info) list" where
  "STRATEGIES =
    [(PARALLEL_CRITICAL,
        \<lparr>description = ''Both agents work on critical patient first, then split'',
         priority = critical_first, cooperation = True\<rparr>),
     (SEQUENTIAL_SEVERITY,
        \<lparr>description = ''Handle patients in order of severity, one at a time'',
         priority = severity, cooperation = False\<rparr>),
     (DOCTOR_CRITICAL_NURSE_OTHERS,
        \<lparr>description = ''Doctor handles critical, nurse handles others'',
         priority = split_by_type, cooperation = False\<rparr>),
     (COOPERATIVE_ALL,
        \<lparr>description = ''Both agents work together on each patient'',
         priority = fifo, cooperation = True\<rparr>),
     (NEAREST_FIRST,
        \<lparr>description = ''Each agent takes nearest patient'',
         priority = distance, cooperation = False\<rparr>),
     (NURSE_TRIAGE_DOCTOR_TREAT,
        \<lparr>description = ''Nurse does triage, doctor does treatment'',
         priority = role_based, cooperation = False\<rparr>)]"

definition STRATEGY_NAMES :: "strategy list" where
  "STRATEGY_NAMES = map fst STRATEGIES"

section \<open>Learner states reached by the service\<close>

text \<open>
  The learner is created by \<^verbatim>\<open>__init__\<close> and changed only by the calls that
  \<^verbatim>\<open>analyze_and_plan\<close> makes in a round: a read of the current policy over the
  catalog (which may insert keys into the regret defaultdict), \<^verbatim>\<open>update_regrets\<close>
  with a value dict over the catalog, and \<^verbatim>\<open>record_iteration\<close> with a policy that
  \<^verbatim>\<open>get_strategy_probabilities\<close> returned over the catalog.
\<close>

inductive reachable_cfr :: "strategy CFRRegretMinimizer \<Rightarrow> bool" where
  reach_init: "reachable_cfr cfr_init"
| reach_policy: "reachable_cfr c \<Longrightarrow> reachable_cfr (fst (get_strategy_probabilities c STRATEGY_NAMES))"
| reach_update: "reachable_cfr c \<Longrightarrow> map fst svals = STRATEGY_NAMES \<Longrightarrow>
     reachable_cfr (update_regrets c svals selected)"
| reach_record: "reachable_cfr c \<Longrightarrow> map fst svals = STRATEGY_NAMES \<Longrightarrow>
     reachable_cfr (record_iteration c svals selected
        (snd (get_strategy_probabilities c0 STRATEGY_NAMES)) rew)"

section \<open>Game constants\<close>

text \<open>
  A patient's type is one of the three keys of \<^verbatim>\<open>INITIAL_HEALTH\<close>, \<^verbatim>\<open>PATHWAYS\<close>,
  \<^verbatim>\<open>WAITING_PENALTY\<close> and \<^verbatim>\<open>COMPLETION_REWARD\<close>: the two places that construct a
  patient (\<^verbatim>\<open>create_scenario\<close>, \<^verbatim>\<open>spawn_patient\<close>) index \<^verbatim>\<open>INITIAL_HEALTH[ptype]\<close>
  first, which raises \<^verbatim>\<open>KeyError\<close> for any other string. Rooms stay strings: every
  table of rooms is read with \<^verbatim>\<open>.get(room, default)\<close>. The two agents are the strings
  \<^verbatim>\<open>'nurse'\<close> and \<^verbatim>\<open>'doctor'\<close>.
\<close>

datatype patient_type = Critical | Moderate | Minor

datatype agent = nurse | doctor

definition DOCTOR_HEALING_POWER :: real where "DOCTOR_HEALING_POWER = 60"
definition NURSE_HEALING_POWER :: real where "NURSE_HEALING_POWER = 40"
definition COOPERATIVE_BONUS :: real where "COOPERATIVE_BONUS = 1.2"

definition ROOM_EFFECTIVENESS :: "(string \<times> real) list" where
  "ROOM_EFFECTIVENESS = [(''TRIAGE'', 0.1), (''TB'', 0.30), (''LAB'', 0.15), (''ICU'', 0.50)]"

definition ROOM_TREATMENT_TIME :: "(string \<times> int) list" where
  "ROOM_TREATMENT_TIME = [(''TRIAGE'', 5), (''TB'', 15), (''LAB'', 20), (''ICU'', 45)]"

fun WAITING_PENALTY :: "patient_type \<Rightarrow> real" where
  "WAITING_PENALTY Critical = - 3.0"
| "WAITING_PENALTY Moderate = - 2.0"
| "WAITING_PENALTY Minor = - 1.0"

fun COMPLETION_REWARD :: "patient_type \<Rightarrow> real" where
  "COMPLETION_REWARD Critical = 100"
| "COMPLETION_REWARD Moderate = 60"
| "COMPLETION_REWARD Minor = 30"

fun INITIAL_HEALTH :: "patient_type \<Rightarrow> real" where
  "INITIAL_HEALTH Critical = 30"
| "INITIAL_HEALTH Moderate = 50"
| "INITIAL_HEALTH Minor = 70"

fun PATHWAYS :: "patient_type \<Rightarrow> string list" where
  "PATHWAYS Critical = [''TRIAGE'', ''TB'', ''ICU'']"
| "PATHWAYS Moderate = [''TRIAGE'', ''TB'', ''LAB'', ''TB'']"
| "PATHWAYS Minor = [''TRIAGE'', ''TB'']"

text \<open>
  \<^verbatim>\<open>ROOM_POSITIONS\<close> is a module-level dict that \<^verbatim>\<open>set_rooms\<close> updates at run time, so
  the functions that read it take the current table as a parameter; this is its
  initial value.
\<close>

definition ROOM_POSITIONS :: "(string \<times> real \<times> real) list" where
  "ROOM_POSITIONS = [(''ENT'', (0, 0)), (''TRIAGE'', (2, 0)), (''TB'', (5, 3)),
     (''LAB'', (8, - 2)), (''ICU'', (10, 5))]"

definition room_distance :: "(string \<times> real \<times> real) list \<Rightarrow> string \<Rightarrow> string \<Rightarrow> real" where
  "room_distance positions r1 r2 =
     (let p1 = dict_get positions r1 (0, 0); p2 = dict_get positions r2 (0, 0)
      in sqrt ((fst p1 - fst p2)\<^sup>2 + (snd p1 - snd p2)\<^sup>2))"

section \<open>Patients (dataclass Patient)\<close>

text \<open>The field \<^verbatim>\<open>id\<close> is \<open>pid\<close>: \<open>id\<close> is the identity function of HOL.\<close>

record Patient =
  pid :: int
  ptype :: patient_type
  health :: real
  pathway :: "string list"
  current_step :: int
  arrival_time :: real
  waiting_time :: real
  being_treated_by :: "agent list"
  deadline :: real
  doctor_required :: bool

text \<open>
  The patient that \<^verbatim>\<open>spawn_patient(ptype)\<close> constructs when the counter has reached
  \<open>i\<close>; the fields not passed to the constructor take the defaults of the dataclass.
\<close>

definition new_patient :: "int \<Rightarrow> patient_type \<Rightarrow> Patient" where
  "new_patient i t =
     \<lparr>pid = i, ptype = t, health = INITIAL_HEALTH t, pathway = PATHWAYS t,
      current_step = 0, arrival_time = 0, waiting_time = 0, being_treated_by = [],
      deadline = (case t of Critical \<Rightarrow> 25 | Moderate \<Rightarrow> 45 | Minor \<Rightarrow> 30),
      doctor_required = (t = Critical)\<rparr>"

definition is_complete :: "Patient \<Rightarrow> bool" where
  "is_complete p \<longleftrightarrow> current_step p \<ge> int (length (pathway p))"

definition urgency :: "Patient \<Rightarrow> real" where
  "urgency p =
     (let type_weight = (case ptype p of Critical \<Rightarrow> 3 | Moderate \<Rightarrow> 2 | Minor \<Rightarrow> 1);
          health_urgency = (100 - health p) / 100
      in type_weight * health_urgency)"

text \<open>
  \<^verbatim>\<open>sorted(patients, key=lambda p: -p.urgency)\<close>: Python's sort is stable, as is
  \<^const>\<open>sort_key\<close>.
\<close>

definition sorted_by_urgency :: "Patient list \<Rightarrow> Patient list" where
  "sorted_by_urgency patients = sort_key (\<lambda>p. - urgency p) patients"

section \<open>The strategy generator (StrategyGenerator.generate_action_sequences)\<close>

text \<open>
  A symbolic action is a string. The simulator distinguishes four kinds of string:
  \<^verbatim>\<open>'TREAT_PATIENT_' + str(k)\<close> for an integer \<open>k\<close>; a string with the prefix
  \<^verbatim>\<open>'TREAT_PATIENT_'\<close> whose last \<^verbatim>\<open>'_'\<close>-separated field is not an integer literal
  (\<^verbatim>\<open>int(...)\<close> raises \<^verbatim>\<open>ValueError\<close>); \<^verbatim>\<open>'WAIT'\<close>; and any other string. The
  generator produces the first and the third kind only, from \<^verbatim>\<open>f'TREAT_PATIENT_{p.id}'\<close>.
\<close>

datatype sim_action = TREAT_PATIENT int | TREAT_PATIENT_malformed | WAIT | other_action

text \<open>\<^verbatim>\<open>STRATEGIES[strategy_name]\<close>; every strategy is a key of the catalog.\<close>

definition strategy_info_of :: "strategy \<Rightarrow> strategy_info" where
  "strategy_info_of s = the (map_of STRATEGIES s)"

text \<open>The bodies of the \<^verbatim>\<open>for p in ...\<close> loops, one per priority rule.\<close>

definition critical_first_body ::
  "Patient \<Rightarrow> sim_action list \<times> sim_action list \<Rightarrow> sim_action list \<times> sim_action list" where
  "critical_first_body p acc =
     (let (nurse_actions, doctor_actions) = acc; n = length (pathway p)
      in if ptype p = Critical
         then (nurse_actions @ replicate n (TREAT_PATIENT (pid p)),
               doctor_actions @ replicate n (TREAT_PATIENT (pid p)))
         else (nurse_actions @ replicate n (TREAT_PATIENT (pid p)),
               doctor_actions @ replicate n WAIT))"

definition both_body ::
  "Patient \<Rightarrow> sim_action list \<times> sim_action list \<Rightarrow> sim_action list \<times> sim_action list" where
  "both_body p acc =
     (let (nurse_actions, doctor_actions) = acc; n = length (pathway p)
      in (nurse_actions @ replicate n (TREAT_PATIENT (pid p)),
          doctor_actions @ replicate n (TREAT_PATIENT (pid p))))"

definition split_by_type_body ::
  "Patient \<Rightarrow> sim_action list \<times> sim_action list \<Rightarrow> sim_action list \<times> sim_action list" where
  "split_by_type_body p acc =
     (let (nurse_actions, doctor_actions) = acc; n = length (pathway p)
      in if ptype p = Critical
         then (nurse_actions, doctor_actions @ replicate n (TREAT_PATIENT (pid p)))
         else (nurse_actions @ replicate n (TREAT_PATIENT (pid p)), doctor_actions))"

definition distance_body ::
  "nat \<times> Patient \<Rightarrow> sim_action list \<times> sim_action list \<Rightarrow> sim_action list \<times> sim_action list" where
  "distance_body ip acc =
     (let (i, p) = ip; (nurse_actions, doctor_actions) = acc; n = length (pathway p)
      in if i mod 2 = 0
         then (nurse_actions @ replicate n (TREAT_PATIENT (pid p)), doctor_actions)
         else (nurse_actions, doctor_actions @ replicate n (TREAT_PATIENT (pid p))))"

text \<open>\<^verbatim>\<open>range(len(p.pathway) - 1)\<close> is empty for an empty pathway, as truncating subtraction gives.\<close>

definition role_based_body ::
  "Patient \<Rightarrow> sim_action list \<times> sim_action list \<Rightarrow> sim_action list \<times> sim_action list" where
  "role_based_body p acc =
     (let (nurse_actions, doctor_actions) = acc
      in (nurse_actions @ [TREAT_PATIENT (pid p)],
          doctor_actions @ replicate (length (pathway p) - 1) (TREAT_PATIENT (pid p))))"

text \<open>\<^verbatim>\<open>max_len = max(...); nurse_actions.extend(['WAIT'] * ...); doctor_actions.extend(...)\<close>\<close>

definition pad_with_wait :: "sim_action list \<times> sim_action list \<Rightarrow> sim_action list \<times> sim_action list" where
  "pad_with_wait acc =
     (let (nurse_actions, doctor_actions) = acc;
          max_len = max (length nurse_actions) (length doctor_actions)
      in (nurse_actions @ replicate (max_len - length nurse_actions) WAIT,
          doctor_actions @ replicate (max_len - length doctor_actions) WAIT))"

text \<open>The argument \<open>patients\<close> is \<^verbatim>\<open>state.patients\<close>.\<close>

definition generate_action_sequences ::
  "Patient list \<Rightarrow> strategy \<Rightarrow> sim_action list \<times> sim_action list" where
  "generate_action_sequences patients strategy_name =
     (let strategy = strategy_info_of strategy_name
      in if priority strategy = critical_first
           then fold critical_first_body (sorted_by_urgency patients) ([], [])
         else if priority strategy = severity
           then fold both_body (sorted_by_urgency patients) ([], [])
         else if priority strategy = split_by_type
           then pad_with_wait (fold split_by_type_body patients ([], []))
         else if priority strategy = fifo
           then fold both_body patients ([], [])
         else if priority strategy = distance
           then pad_with_wait (fold distance_body (enumerate 0 patients) ([], []))
         else if priority strategy = role_based
           then pad_with_wait (fold role_based_body patients ([], []))
         else ([], []))"

section \<open>The plan compiler (DynamicRegretAnalyzer._generate_unity_commands)\<close>

datatype command_kind = ESCORT | TREAT | LEAVE_PATIENT | MOVE

text \<open>A command dict; \<open>from_room\<close> is absent from every command but ESCORT.\<close>

record command =
  action :: command_kind
  target :: string
  patient_id :: int
  duration :: int
  from_room :: "string option"

definition treatment_times :: "(string \<times> int) list" where
  "treatment_times = [(''TRIAGE'', 5), (''TB'', 15), (''LAB'', 20), (''ICU'', 45)]"

definition escort_command :: "string \<Rightarrow> int \<Rightarrow> string \<Rightarrow> command" where
  "escort_command room i from = \<lparr>action = ESCORT, target = room, patient_id = i,
     duration = 0, from_room = Some from\<rparr>"

definition treat_command :: "string \<Rightarrow> int \<Rightarrow> command" where
  "treat_command room i = \<lparr>action = TREAT, target = room, patient_id = i,
     duration = dict_get treatment_times room 10, from_room = None\<rparr>"

definition leave_command :: "string \<Rightarrow> int \<Rightarrow> command" where
  "leave_command room i = \<lparr>action = LEAVE_PATIENT, target = room, patient_id = i,
     duration = 0, from_room = None\<rparr>"

definition move_command :: command where
  "move_command = \<lparr>action = MOVE, target = ''ENT'', patient_id = - 1,
     duration = 0, from_room = None\<rparr>"

text \<open>
  The local variables of the compilation loops. \<open>patient_locations\<close> is the dict
  \<^verbatim>\<open>{p.id: 'WAITING' for p in patients}\<close>; it is only read at the id of a patient of the
  roster, so the default of \<open>dict_get\<close> is never returned.
\<close>

record compile_state =
  nurse_commands :: "command list"
  doctor_commands :: "command list"
  patient_locations :: "(int \<times> string) list"
  has_doctor_commands :: bool

definition nurse_pair :: "Patient \<Rightarrow> string \<Rightarrow> string \<Rightarrow> compile_state \<Rightarrow> compile_state" where
  "nurse_pair patient room from st =
     st\<lparr>nurse_commands := nurse_commands st
           @ [escort_command room (pid patient) from, treat_command room (pid patient)]\<rparr>"

definition doctor_pair :: "Patient \<Rightarrow> string \<Rightarrow> string \<Rightarrow> compile_state \<Rightarrow> compile_state" where
  "doctor_pair patient room from st =
     st\<lparr>doctor_commands := doctor_commands st
           @ [escort_command room (pid patient) from, treat_command room (pid patient)],
        has_doctor_commands := True\<rparr>"

text \<open>The body of \<^verbatim>\<open>for room in patient.pathway\<close>.\<close>

definition room_body :: "strategy \<Rightarrow> Patient \<Rightarrow> string \<Rightarrow> compile_state \<Rightarrow> compile_state" where
  "room_body strategy patient room st =
     (let is_critical = (ptype patient = Critical);
          from = dict_get (patient_locations st) (pid patient) ''WAITING'';
          st1 =
            (if strategy = DOCTOR_CRITICAL_NURSE_OTHERS then
               (if is_critical then doctor_pair patient room from st
                else nurse_pair patient room from st)
             else if strategy = NURSE_TRIAGE_DOCTOR_TREAT then
               (if room = ''TRIAGE''
                then (let st' = nurse_pair patient room from st
                      in st'\<lparr>nurse_commands := nurse_commands st' @ [leave_command room (pid patient)]\<rparr>)
                else doctor_pair patient room from st)
             else if strategy = PARALLEL_CRITICAL then
               (if is_critical
                then doctor_pair patient room from (nurse_pair patient room from st)
                else nurse_pair patient room from st)
             else if strategy = COOPERATIVE_ALL then
               doctor_pair patient room from (nurse_pair patient room from st)
             else
               (let st' = nurse_pair patient room from st
                in if is_critical \<and> room \<in> set [''TB'', ''ICU'']
                   then doctor_pair patient room from st' else st'))
      in st1\<lparr>patient_locations := dict_set (patient_locations st1) (pid patient) room\<rparr>)"

text \<open>The body of \<^verbatim>\<open>for patient in patients\<close>.\<close>

definition patient_body :: "strategy \<Rightarrow> Patient \<Rightarrow> compile_state \<Rightarrow> compile_state" where
  "patient_body strategy patient st =
     (let st1 = fold (room_body strategy patient) (pathway patient)
                  (st\<lparr>has_doctor_commands := False\<rparr>)
      in if pathway patient \<noteq> [] \<and> last (pathway patient) = ''ICU'' \<and> has_doctor_commands st1
         then st1\<lparr>doctor_commands := doctor_commands st1 @ [leave_command ''ICU'' (pid patient)]\<rparr>
         else st1)"

text \<open>The roster in the order in which it is compiled.\<close>

definition compile_order :: "Patient list \<Rightarrow> strategy \<Rightarrow> Patient list" where
  "compile_order patients strategy =
     (if priority (strategy_info_of strategy) \<in> set [critical_first, severity]
      then sorted_by_urgency patients else patients)"

text \<open>
  The primary generation: the function up to the comment \<^verbatim>\<open># Final verification\<close>.
  The argument \<open>patients0\<close> is \<^verbatim>\<open>state.patients\<close>.
\<close>

definition primary_commands :: "Patient list \<Rightarrow> strategy \<Rightarrow> command list \<times> command list" where
  "primary_commands patients0 strategy =
     (let patients = compile_order patients0 strategy;
          st0 = \<lparr>nurse_commands = [], doctor_commands = [],
                 patient_locations = dict_of (map (\<lambda>p. (pid p, ''WAITING'')) patients),
                 has_doctor_commands = False\<rparr>;
          st = fold (patient_body strategy) patients st0
      in (nurse_commands st, doctor_commands st))"

text \<open>The repair pass: the set \<^verbatim>\<open>missing_patients\<close> of the verification.\<close>

definition nurse_covered :: "command list \<Rightarrow> int set" where
  "nurse_covered ncs =
     {patient_id cmd | cmd. cmd \<in> set ncs \<and> action cmd \<in> set [ESCORT, TREAT] \<and> patient_id cmd > 0}"

definition missing_patients :: "Patient list \<Rightarrow> strategy \<Rightarrow> int set" where
  "missing_patients patients0 strategy =
     pid ` set (compile_order patients0 strategy)
       - nurse_covered (fst (primary_commands patients0 strategy))"

text \<open>
  The fallback commands of one missed patient id:
  \<^verbatim>\<open>next((p for p in patients if p.id == patient_id), None)\<close> is the first patient with
  that id.
\<close>

definition fallback_for :: "Patient list \<Rightarrow> int \<Rightarrow> command list" where
  "fallback_for patients i =
     (case find (\<lambda>p. pid p = i) patients of
        None \<Rightarrow> []
      | Some patient \<Rightarrow>
          concat (map (\<lambda>room. [escort_command room i ''WAITING'', treat_command room i])
                   (pathway patient)))"

text \<open>
  The whole function. Python does not fix the order in which
  \<^verbatim>\<open>for patient_id in missing_patients\<close> visits a set; the model visits it in
  ascending order, and no theorem below depends on that order.
\<close>

definition generate_unity_commands :: "Patient list \<Rightarrow> strategy \<Rightarrow> command list \<times> command list" where
  "generate_unity_commands patients0 strategy =
     (let patients = compile_order patients0 strategy;
          (ncs, dcs) = primary_commands patients0 strategy;
          missing = missing_patients patients0 strategy;
          ncs1 = (if missing \<noteq> {}
                  then ncs @ concat (map (fallback_for patients) (sorted_list_of_set missing))
                  else ncs);
          ncs2 = (if ncs1 = [] then [move_command] else ncs1);
          dcs2 = (if dcs = [] then [move_command] else dcs)
      in (ncs2, dcs2))"

section \<open>Objects and the store\<close>

text \<open>
  Patients and game states are mutable objects that the code shares by reference, so
  they live in a store: an address is a natural number, a store maps every address to an
  object and records the next free address of each kind, and an object is allocated at
  that address. The addresses below the next free one are the allocated ones; what the
  store holds elsewhere is never read. A list field (\<^verbatim>\<open>patients\<close>, \<^verbatim>\<open>pathway\<close>,
  \<^verbatim>\<open>being_treated_by\<close>) is part of its object: every list of the source is created for
  one object (\<^verbatim>\<open>default_factory\<close>, \<^verbatim>\<open>.copy()\<close>, a comprehension) and reached only
  through it.
\<close>

type_synonym addr = nat

record GameState =
  patients :: "addr list"
  nurse_pos :: string
  doctor_pos :: string
  nurse_busy_until :: real
  doctor_busy_until :: real
  current_time :: real
  total_reward :: real
  total_penalty :: real
  completed_patients :: int

record heap =
  patient_objs :: "addr \<Rightarrow> Patient"
  patient_next :: addr
  state_objs :: "addr \<Rightarrow> GameState"
  state_next :: addr

definition upd_patient :: "heap \<Rightarrow> addr \<Rightarrow> (Patient \<Rightarrow> Patient) \<Rightarrow> heap" where
  "upd_patient h a f = h\<lparr>patient_objs := (patient_objs h)(a := f (patient_objs h a))\<rparr>"

definition upd_state :: "heap \<Rightarrow> addr \<Rightarrow> (GameState \<Rightarrow> GameState) \<Rightarrow> heap" where
  "upd_state h a f = h\<lparr>state_objs := (state_objs h)(a := f (state_objs h a))\<rparr>"

definition alloc_patient :: "heap \<Rightarrow> Patient \<Rightarrow> heap \<times> addr" where
  "alloc_patient h p =
     (h\<lparr>patient_objs := (patient_objs h)(patient_next h := p),
        patient_next := Suc (patient_next h)\<rparr>, patient_next h)"

definition alloc_state :: "heap \<Rightarrow> GameState \<Rightarrow> heap \<times> addr" where
  "alloc_state h s =
     (h\<lparr>state_objs := (state_objs h)(state_next h := s),
        state_next := Suc (state_next h)\<rparr>, state_next h)"

text \<open>The roster of a state, read through the store: \<^verbatim>\<open>state.patients\<close> as values.\<close>

definition roster :: "heap \<Rightarrow> addr \<Rightarrow> Patient list" where
  "roster h sa = map (patient_objs h) (patients (state_objs h sa))"

section \<open>Exceptions and indexing\<close>

datatype pyerr = IndexError | ValueError | ZeroDivisionError

datatype 'a outcome = Raised pyerr | Returned 'a

text \<open>\<^verbatim>\<open>xs[i]\<close>: a negative index counts from the end; \<open>None\<close> is \<^verbatim>\<open>IndexError\<close>.\<close>

definition py_index :: "'a list \<Rightarrow> int \<Rightarrow> 'a option" where
  "py_index xs i =
     (let n = int (length xs)
      in if 0 \<le> i \<and> i < n then Some (xs ! nat i)
         else if - n \<le> i \<and> i < 0 then Some (xs ! nat (n + i))
         else None)"

text \<open>The property \<^verbatim>\<open>next_room\<close>.\<close>

definition next_room :: "Patient \<Rightarrow> string option outcome" where
  "next_room p =
     (if \<not> is_complete p
      then (case py_index (pathway p) (current_step p) of
              None \<Rightarrow> Raised IndexError
            | Some room \<Rightarrow> Returned (Some room))
      else Returned None)"

text \<open>
  \<^verbatim>\<open>__post_init__\<close>, which runs in every construction of a patient; \<open>new_patient\<close>
  already has the values it computes.
\<close>

definition post_init :: "Patient \<Rightarrow> Patient" where
  "post_init p =
     (let p1 = (if deadline p = 0
                then p\<lparr>deadline := (case ptype p of Critical \<Rightarrow> 25 | Moderate \<Rightarrow> 45 | Minor \<Rightarrow> 30)\<rparr>
                else p)
      in if \<not> doctor_required p1 then p1\<lparr>doctor_required := (ptype p1 = Critical)\<rparr> else p1)"

text \<open>\<^verbatim>\<open>Patient.clone\<close> for the object at \<open>a\<close>, and \<^verbatim>\<open>[p.clone() for p in self.patients]\<close>.\<close>

definition clone_patient :: "heap \<Rightarrow> addr \<Rightarrow> heap \<times> addr" where
  "clone_patient h a = alloc_patient h (post_init (patient_objs h a))"

fun clone_patients :: "heap \<Rightarrow> addr list \<Rightarrow> heap \<times> addr list" where
  "clone_patients h [] = (h, [])"
| "clone_patients h (a # as) =
     (let (h1, a') = clone_patient h a;
          (h2, as') = clone_patients h1 as
      in (h2, a' # as'))"

text \<open>\<^verbatim>\<open>GameState.clone\<close>\<close>

definition clone_state :: "heap \<Rightarrow> addr \<Rightarrow> heap \<times> addr" where
  "clone_state h sa =
     (let s = state_objs h sa;
          (h1, ps) = clone_patients h (patients s)
      in alloc_state h1 (s\<lparr>patients := ps\<rparr>))"

section \<open>The game simulator (class GameSimulator)\<close>

record metrics =
  total_healing :: real
  metrics_total_penalty :: real
  patients_completed :: int
  cooperation_events :: int
  idle_time :: real

definition nurse_speed :: real where "nurse_speed = 4.0"
definition doctor_speed :: real where "doctor_speed = 2.5"

text \<open>The loop of \<^verbatim>\<open>apply_waiting_penalties\<close>, with the local \<open>penalty\<close>.\<close>

fun waiting_loop :: "real \<Rightarrow> addr list \<Rightarrow> heap \<times> real \<Rightarrow> heap \<times> real" where
  "waiting_loop time_delta [] (h, penalty) = (h, penalty)"
| "waiting_loop time_delta (a # as) (h, penalty) =
     (if being_treated_by (patient_objs h a) = []
      then (let rate = WAITING_PENALTY (ptype (patient_objs h a))
            in waiting_loop time_delta as
                 (upd_patient h a
                    (\<lambda>p. p\<lparr>waiting_time := waiting_time p + time_delta,
                           health := max 0 (health p + rate * time_delta)\<rparr>),
                  penalty + rate * time_delta))
      else waiting_loop time_delta as (h, penalty))"

definition apply_waiting_penalties :: "heap \<Rightarrow> addr \<Rightarrow> real \<Rightarrow> heap \<times> real" where
  "apply_waiting_penalties h sa time_delta =
     (let (h1, penalty) = waiting_loop time_delta (patients (state_objs h sa)) (h, 0)
      in (upd_state h1 sa (\<lambda>s. s\<lparr>total_penalty := total_penalty s + penalty\<rparr>), penalty))"

text \<open>\<^verbatim>\<open>treat_patient(state, patient, agent, duration, cooperative)\<close>\<close>

definition treat_patient ::
  "heap \<Rightarrow> addr \<Rightarrow> addr \<Rightarrow> agent \<Rightarrow> real \<Rightarrow> bool \<Rightarrow> heap \<times> real outcome" where
  "treat_patient h sa pa ag dur cooperative =
     (case next_room (patient_objs h pa) of
        Raised e \<Rightarrow> (h, Raised e)
      | Returned None \<Rightarrow> (h, Returned 0)
      | Returned (Some room) \<Rightarrow>
          (let base_power = (if ag = doctor then DOCTOR_HEALING_POWER else NURSE_HEALING_POWER);
               effectiveness = dict_get ROOM_EFFECTIVENESS room 0.2;
               base_power = (if cooperative then base_power * COOPERATIVE_BONUS else base_power);
               healing = base_power * effectiveness
                           * (dur / real_of_int (dict_get ROOM_TREATMENT_TIME room 10));
               h1 = upd_patient h pa (\<lambda>p. p\<lparr>health := min 100 (health p + healing)\<rparr>);
               h2 = upd_patient h1 pa (\<lambda>p. p\<lparr>current_step := current_step p + 1\<rparr>);
               rew = healing
           in if is_complete (patient_objs h2 pa)
              then (let rew' = rew + COMPLETION_REWARD (ptype (patient_objs h2 pa));
                        h3 = upd_state h2 sa (\<lambda>s. s\<lparr>completed_patients := completed_patients s + 1\<rparr>)
                    in (upd_state h3 sa (\<lambda>s. s\<lparr>total_reward := total_reward s + rew'\<rparr>),
                        Returned rew'))
              else (upd_state h2 sa (\<lambda>s. s\<lparr>total_reward := total_reward s + rew\<rparr>),
                    Returned rew)))"

text \<open>
  The block of \<^verbatim>\<open>_execute_agent_action\<close> under \<^verbatim>\<open>if room:\<close>, for the patient object
  \<open>pa\<close> and its next room. \<open>positions\<close> is the current \<^verbatim>\<open>ROOM_POSITIONS\<close>.
\<close>

definition treat_at ::
  "(string \<times> real \<times> real) list \<Rightarrow> heap \<Rightarrow> addr \<Rightarrow> agent \<Rightarrow> addr \<Rightarrow> string \<Rightarrow> metrics
     \<Rightarrow> heap \<times> metrics \<times> real outcome" where
  "treat_at positions h sa ag pa room m =
     (let s = state_objs h sa;
          current_pos = (if ag = nurse then nurse_pos s else doctor_pos s);
          travel_time = room_distance positions current_pos room
                          / (if ag = nurse then nurse_speed else doctor_speed);
          treatment_time = real_of_int (dict_get ROOM_TREATMENT_TIME room 10);
          cooperative = (length (being_treated_by (patient_objs h pa)) > 0);
          m1 = (if cooperative then m\<lparr>cooperation_events := cooperation_events m + 1\<rparr> else m);
          busy_until = current_time s + travel_time + treatment_time;
          h1 = (if ag = nurse
                then upd_state h sa (\<lambda>s. s\<lparr>nurse_busy_until := busy_until, nurse_pos := room\<rparr>)
                else upd_state h sa (\<lambda>s. s\<lparr>doctor_busy_until := busy_until, doctor_pos := room\<rparr>));
          h2 = upd_patient h1 pa (\<lambda>p. p\<lparr>being_treated_by := being_treated_by p @ [ag]\<rparr>)
      in case treat_patient h2 sa pa ag treatment_time cooperative of
           (h3, Raised e) \<Rightarrow> (h3, m1, Raised e)
         | (h3, Returned rew) \<Rightarrow>
             (upd_patient h3 pa (\<lambda>p. p\<lparr>being_treated_by := remove1 ag (being_treated_by p)\<rparr>),
              m1, Returned rew))"

text \<open>
  \<^verbatim>\<open>_execute_agent_action(state, agent, action, metrics)\<close>. The test \<^verbatim>\<open>if room:\<close> is
  false for \<^verbatim>\<open>None\<close> and for the empty string.
\<close>

definition execute_agent_action ::
  "(string \<times> real \<times> real) list \<Rightarrow> heap \<Rightarrow> addr \<Rightarrow> agent \<Rightarrow> sim_action \<Rightarrow> metrics
     \<Rightarrow> heap \<times> metrics \<times> real outcome" where
  "execute_agent_action positions h sa ag act m =
     (case act of
        TREAT_PATIENT k \<Rightarrow>
          (let patient_idx = k - 1
           in if patient_idx < int (length (patients (state_objs h sa)))
              then (case py_index (patients (state_objs h sa)) patient_idx of
                      None \<Rightarrow> (h, m, Raised IndexError)
                    | Some pa \<Rightarrow>
                       (case next_room (patient_objs h pa) of
                          Raised e \<Rightarrow> (h, m, Raised e)
                        | Returned None \<Rightarrow> (h, m, Returned 0)
                        | Returned (Some room) \<Rightarrow>
                            if room \<noteq> [] then treat_at positions h sa ag pa room m
                            else (h, m, Returned 0)))
              else (h, m, Returned 0))
      | TREAT_PATIENT_malformed \<Rightarrow> (h, m, Raised ValueError)
      | WAIT \<Rightarrow>
          (upd_state h sa
             (\<lambda>s. if ag = nurse then s\<lparr>nurse_busy_until := current_time s + 1\<rparr>
                   else s\<lparr>doctor_busy_until := current_time s + 1\<rparr>),
           m\<lparr>idle_time := idle_time m + 1\<rparr>, Returned 0)
      | other_action \<Rightarrow> (h, m, Returned 0))"

text \<open>
  \<^verbatim>\<open>state.patients.remove(p)\<close> removes the first element equal to \<open>p\<close>, and the
  dataclass compares patients field by field. The element sought is in the list, so the
  \<^verbatim>\<open>ValueError\<close> of a failed search cannot occur.
\<close>

fun list_remove :: "heap \<Rightarrow> Patient \<Rightarrow> addr list \<Rightarrow> addr list" where
  "list_remove h p [] = []"
| "list_remove h p (a # as) = (if patient_objs h a = p then as else a # list_remove h p as)"

text \<open>
  The loop \<^verbatim>\<open>for p in dead\<close> over the list
  \<^verbatim>\<open>dead = [p for p in state.patients if p.health <= 0]\<close>.
\<close>

fun dead_loop :: "addr \<Rightarrow> addr list \<Rightarrow> heap \<times> metrics \<Rightarrow> heap \<times> metrics" where
  "dead_loop sa [] (h, m) = (h, m)"
| "dead_loop sa (a # dead) (h, m) =
     dead_loop sa dead
       (upd_state h sa (\<lambda>s. s\<lparr>total_penalty := total_penalty s - 50,
                              patients := list_remove h (patient_objs h a) (patients s)\<rparr>),
        m\<lparr>metrics_total_penalty := metrics_total_penalty m + 50\<rparr>)"

definition remove_dead :: "heap \<Rightarrow> addr \<Rightarrow> metrics \<Rightarrow> heap \<times> metrics" where
  "remove_dead h sa m =
     dead_loop sa (filter (\<lambda>a. health (patient_objs h a) \<le> 0) (patients (state_objs h sa))) (h, m)"

text \<open>
  The loop \<^verbatim>\<open>for p in completed\<close> over
  \<^verbatim>\<open>completed = [p for p in state.patients if p.is_complete]\<close>.
\<close>

fun completed_loop :: "addr \<Rightarrow> addr list \<Rightarrow> heap \<times> metrics \<Rightarrow> heap \<times> metrics" where
  "completed_loop sa [] (h, m) = (h, m)"
| "completed_loop sa (a # completed) (h, m) =
     completed_loop sa completed
       (upd_state h sa (\<lambda>s. s\<lparr>patients := list_remove h (patient_objs h a) (patients s)\<rparr>),
        m\<lparr>patients_completed := patients_completed m + 1\<rparr>)"

definition remove_completed :: "heap \<Rightarrow> addr \<Rightarrow> metrics \<Rightarrow> heap \<times> metrics" where
  "remove_completed h sa m =
     completed_loop sa (filter (\<lambda>a. is_complete (patient_objs h a)) (patients (state_objs h sa))) (h, m)"

text \<open>
  The two blocks \<^verbatim>\<open># Nurse action\<close> and \<^verbatim>\<open># Doctor action\<close> of the loop body, which
  differ in the agent only. \<open>idx\<close> is the agent's action index.
\<close>

definition agent_turn ::
  "(string \<times> real \<times> real) list \<Rightarrow> sim_action list \<Rightarrow> agent \<Rightarrow> heap \<Rightarrow> addr \<Rightarrow> nat \<Rightarrow> metrics
     \<Rightarrow> heap \<times> (nat \<times> metrics) outcome" where
  "agent_turn positions actions ag h sa idx m =
     (let s = state_objs h sa;
          busy_until = (if ag = nurse then nurse_busy_until s else doctor_busy_until s)
      in if current_time s \<ge> busy_until \<and> idx < length actions
         then (case execute_agent_action positions h sa ag (actions ! idx) m of
                 (h', m', Raised e) \<Rightarrow> (h', Raised e)
               | (h', m', Returned rew) \<Rightarrow>
                   (h', Returned (idx + 1, m'\<lparr>total_healing := total_healing m' + rew\<rparr>)))
         else (h, Returned (idx, m)))"

text \<open>One pass through the body of the \<^verbatim>\<open>while\<close> loop; \<open>time_step\<close> is 1.\<close>

definition tick ::
  "(string \<times> real \<times> real) list \<Rightarrow> sim_action list \<Rightarrow> sim_action list \<Rightarrow> heap \<Rightarrow> addr
     \<Rightarrow> nat \<Rightarrow> nat \<Rightarrow> metrics \<Rightarrow> heap \<times> (nat \<times> nat \<times> metrics) outcome" where
  "tick positions nurse_actions doctor_actions h sa nurse_action_idx doctor_action_idx m =
     (let time_step = 1;
          (h1, penalty) = apply_waiting_penalties h sa time_step;
          m1 = m\<lparr>metrics_total_penalty := metrics_total_penalty m + \<bar>penalty\<bar>\<rparr>;
          (h2, m2) = remove_dead h1 sa m1
      in case agent_turn positions nurse_actions nurse h2 sa nurse_action_idx m2 of
           (h3, Raised e) \<Rightarrow> (h3, Raised e)
         | (h3, Returned (ni, m3)) \<Rightarrow>
             (case agent_turn positions doctor_actions doctor h3 sa doctor_action_idx m3 of
                (h4, Raised e) \<Rightarrow> (h4, Raised e)
              | (h4, Returned (di, m4)) \<Rightarrow>
                  (let (h5, m5) = remove_completed h4 sa m4
                   in (upd_state h5 sa (\<lambda>s. s\<lparr>current_time := current_time s + time_step\<rparr>),
                       Returned (ni, di, m5)))))"

text \<open>
  The clock of a state is changed by the last statement of the loop body only; this is
  what makes the loop terminate.
\<close>

lemma waiting_loop_states: "state_objs (fst (waiting_loop d as hp)) = state_objs (fst hp)"
  by (induction d as hp rule: waiting_loop.induct) (simp_all add: Let_def upd_patient_def)

lemma apply_waiting_penalties_time:
  "current_time (state_objs (fst (apply_waiting_penalties h sa d)) sa') = current_time (state_objs h sa')"
  using waiting_loop_states [of d "patients (state_objs h sa)" "(h, 0)"]
  by (simp add: apply_waiting_penalties_def split_def Let_def upd_state_def)

lemma dead_loop_time:
  "current_time (state_objs (fst (dead_loop sa dead hm)) sa') = current_time (state_objs (fst hm) sa')"
  by (induction sa dead hm rule: dead_loop.induct) (simp_all add: upd_state_def)

lemma remove_dead_time:
  "current_time (state_objs (fst (remove_dead h sa m)) sa') = current_time (state_objs h sa')"
  by (simp add: remove_dead_def dead_loop_time)

lemma completed_loop_time:
  "current_time (state_objs (fst (completed_loop sa cs hm)) sa') = current_time (state_objs (fst hm) sa')"
  by (induction sa cs hm rule: completed_loop.induct) (simp_all add: upd_state_def)

lemma remove_completed_time:
  "current_time (state_objs (fst (remove_completed h sa m)) sa') = current_time (state_objs h sa')"
  by (simp add: remove_completed_def completed_loop_time)

lemma treat_patient_time:
  "current_time (state_objs (fst (treat_patient h sa pa ag dur coop)) sa') = current_time (state_objs h sa')"
  by (simp add: treat_patient_def Let_def upd_state_def upd_patient_def
      split: outcome.splits option.splits)

lemma treat_at_time:
  "current_time (state_objs (fst (treat_at positions h sa ag pa room m)) sa')
     = current_time (state_objs h sa')"
proof -
  define h2 where "h2 = upd_patient
      (if ag = nurse
       then upd_state h sa (\<lambda>s. s\<lparr>nurse_busy_until := current_time (state_objs h sa)
              + room_distance positions (if ag = nurse then nurse_pos (state_objs h sa) else doctor_pos (state_objs h sa)) room
                  / (if ag = nurse then nurse_speed else doctor_speed)
              + real_of_int (dict_get ROOM_TREATMENT_TIME room 10), nurse_pos := room\<rparr>)
       else upd_state h sa (\<lambda>s. s\<lparr>doctor_busy_until := current_time (state_objs h sa)
              + room_distance positions (if ag = nurse then nurse_pos (state_objs h sa) else doctor_pos (state_objs h sa)) room
                  / (if ag = nurse then nurse_speed else doctor_speed)
              + real_of_int (dict_get ROOM_TREATMENT_TIME room 10), doctor_pos := room\<rparr>))
      pa (\<lambda>p. p\<lparr>being_treated_by := being_treated_by p @ [ag]\<rparr>)"
  have t2: "current_time (state_objs h2 sa') = current_time (state_objs h sa')"
    by (simp add: h2_def upd_state_def upd_patient_def)
  obtain h3 r where tp: "treat_patient h2 sa pa ag (real_of_int (dict_get ROOM_TREATMENT_TIME room 10))
      (length (being_treated_by (patient_objs h pa)) > 0) = (h3, r)"
    by (cases "treat_patient h2 sa pa ag (real_of_int (dict_get ROOM_TREATMENT_TIME room 10))
      (length (being_treated_by (patient_objs h pa)) > 0)")
  have "current_time (state_objs (fst (h3, r)) sa') = current_time (state_objs h2 sa')"
    unfolding tp [symmetric] by (rule treat_patient_time)
  with t2 have t3: "current_time (state_objs h3 sa') = current_time (state_objs h sa')" by simp
  show ?thesis
    using tp t3 unfolding treat_at_def Let_def h2_def [symmetric]
    by (cases r) (simp_all add: upd_patient_def)
qed

lemma execute_agent_action_time:
  "current_time (state_objs (fst (execute_agent_action positions h sa ag act m)) sa')
     = current_time (state_objs h sa')"
proof (cases act)
  case (TREAT_PATIENT k)
  show ?thesis
    by (simp add: TREAT_PATIENT execute_agent_action_def Let_def treat_at_time
        split: option.splits outcome.splits)
next
  case TREAT_PATIENT_malformed
  then show ?thesis by (simp add: execute_agent_action_def)
next
  case WAIT
  then show ?thesis by (simp add: execute_agent_action_def upd_state_def)
next
  case other_action
  then show ?thesis by (simp add: execute_agent_action_def)
qed

lemma agent_turn_time:
  "current_time (state_objs (fst (agent_turn positions actions ag h sa idx m)) sa')
     = current_time (state_objs h sa')"
  using execute_agent_action_time [of positions h sa ag "actions ! idx" m sa']
  by (auto simp: agent_turn_def Let_def split: prod.splits outcome.splits)

lemma tick_time:
  assumes "tick positions nurse_actions doctor_actions h sa ni di m = (h', Returned r)"
  shows "current_time (state_objs h' sa) = current_time (state_objs h sa) + 1"
proof -
  obtain h1 penalty where awp: "apply_waiting_penalties h sa 1 = (h1, penalty)"
    by (cases "apply_waiting_penalties h sa 1")
  let ?m1 = "m\<lparr>metrics_total_penalty := metrics_total_penalty m + \<bar>penalty\<bar>\<rparr>"
  obtain h2 m2 where rd: "remove_dead h1 sa ?m1 = (h2, m2)"
    by (cases "remove_dead h1 sa ?m1")
  obtain h3 o3 where nt: "agent_turn positions nurse_actions nurse h2 sa ni m2 = (h3, o3)"
    by (cases "agent_turn positions nurse_actions nurse h2 sa ni m2")
  from assms awp rd nt obtain ni' m3 where o3: "o3 = Returned (ni', m3)"
    by (cases o3) (auto simp: tick_def Let_def)
  obtain h4 o4 where dt: "agent_turn positions doctor_actions doctor h3 sa di m3 = (h4, o4)"
    by (cases "agent_turn positions doctor_actions doctor h3 sa di m3")
  from assms awp rd nt o3 dt obtain di' m4 where o4: "o4 = Returned (di', m4)"
    by (cases o4) (auto simp: tick_def Let_def)
  obtain h5 m5 where rc: "remove_completed h4 sa m4 = (h5, m5)"
    by (cases "remove_completed h4 sa m4")
  from assms awp rd nt o3 dt o4 rc
  have h': "h' = upd_state h5 sa (\<lambda>s. s\<lparr>current_time := current_time s + 1\<rparr>)"
    by (simp add: tick_def Let_def)
  have "current_time (state_objs h1 sa) = current_time (state_objs h sa)"
    using apply_waiting_penalties_time [of h sa 1 sa] awp by simp
  moreover have "current_time (state_objs h2 sa) = current_time (state_objs h1 sa)"
    using remove_dead_time [of h1 sa ?m1 sa] rd by simp
  moreover have "current_time (state_objs h3 sa) = current_time (state_objs h2 sa)"
    using agent_turn_time [of positions nurse_actions nurse h2 sa ni m2 sa] nt by simp
  moreover have "current_time (state_objs h4 sa) = current_time (state_objs h3 sa)"
    using agent_turn_time [of positions doctor_actions doctor h3 sa di m3 sa] dt by simp
  moreover have "current_time (state_objs h5 sa) = current_time (state_objs h4 sa)"
    using remove_completed_time [of h4 sa m4 sa] rc by simp
  ultimately show ?thesis by (simp add: h' upd_state_def)
qed

lemma tick_measure:
  assumes "tick positions nurse_actions doctor_actions h sa ni di m = (h', Returned r)"
    and "current_time (state_objs h sa) < T"
  shows "\<lceil>T - current_time (state_objs h' sa)\<rceil> < \<lceil>T - current_time (state_objs h sa)\<rceil>"
proof -
  from tick_time [OF assms(1)]
  have "T - current_time (state_objs h' sa) = (T - current_time (state_objs h sa)) - 1" by simp
  then show ?thesis by (simp only: ceiling_diff_one)
qed

text \<open>
  The \<^verbatim>\<open>while\<close> loop of \<^verbatim>\<open>simulate_action_sequence\<close>; an exception leaves the loop
  with the store as it is then.
\<close>

function sim_loop ::
  "(string \<times> real \<times> real) list \<Rightarrow> real \<Rightarrow> sim_action list \<Rightarrow> sim_action list \<Rightarrow> heap \<Rightarrow> addr
     \<Rightarrow> nat \<Rightarrow> nat \<Rightarrow> metrics \<Rightarrow> heap \<times> metrics outcome" where
  "sim_loop positions simulation_time nurse_actions doctor_actions h sa ni di m =
     (if current_time (state_objs h sa) < simulation_time \<and> patients (state_objs h sa) \<noteq> []
      then (case tick positions nurse_actions doctor_actions h sa ni di m of
              (h', Raised e) \<Rightarrow> (h', Raised e)
            | (h', Returned (ni', di', m')) \<Rightarrow>
                sim_loop positions simulation_time nurse_actions doctor_actions h' sa ni' di' m')
      else (h, Returned m))"
  by pat_completeness auto
termination
  by (relation "measure (\<lambda>(positions, T, na, da, h, sa, ni, di, m).
          nat \<lceil>T - current_time (state_objs h sa)\<rceil>)")
     (auto intro: tick_measure [OF sym])

text \<open>
  \<^verbatim>\<open>simulate_action_sequence(initial_state, nurse_actions, doctor_actions, simulation_time)\<close>;
  the result is the store, and the address of the final state with the metrics.
\<close>

definition simulate_action_sequence ::
  "(string \<times> real \<times> real) list \<Rightarrow> heap \<Rightarrow> addr \<Rightarrow> sim_action list \<Rightarrow> sim_action list \<Rightarrow> real
     \<Rightarrow> heap \<times> (addr \<times> metrics) outcome" where
  "simulate_action_sequence positions h initial_state nurse_actions doctor_actions simulation_time =
     (let (h1, state) = clone_state h initial_state;
          m = \<lparr>total_healing = 0, metrics_total_penalty = 0, patients_completed = 0,
               cooperation_events = 0, idle_time = 0\<rparr>
      in case sim_loop positions simulation_time nurse_actions doctor_actions h1 state 0 0 m of
           (h', Raised e) \<Rightarrow> (h', Raised e)
         | (h', Returned m') \<Rightarrow> (h', Returned (state, m')))"

section \<open>The frame of a simulation\<close>

text \<open>
  \<open>frame h0 h\<close>: every object allocated in \<open>h0\<close> is in \<open>h\<close> as it is in \<open>h0\<close>, and
  \<open>h\<close> has allocated no address twice.
\<close>

definition frame :: "heap \<Rightarrow> heap \<Rightarrow> bool" where
  "frame h0 h \<longleftrightarrow>
     patient_next h0 \<le> patient_next h \<and> state_next h0 \<le> state_next h
     \<and> (\<forall>a < patient_next h0. patient_objs h a = patient_objs h0 a)
     \<and> (\<forall>a < state_next h0. state_objs h a = state_objs h0 a)"

text \<open>
  What holds of the store while the clone at \<open>sa\<close> is simulated: the frame, and the clone
  and the patients of its roster are objects allocated after \<open>h0\<close>.
\<close>

definition sim_inv :: "heap \<Rightarrow> addr \<Rightarrow> heap \<Rightarrow> bool" where
  "sim_inv h0 sa h \<longleftrightarrow>
     frame h0 h \<and> state_next h0 \<le> sa
     \<and> (\<forall>a \<in> set (patients (state_objs h sa)). patient_next h0 \<le> a)"

section \<open>The analyzer's roster operations (class DynamicRegretAnalyzer)\<close>

text \<open>
  The analyzer's mutable fields: the learner, the patient counter and the reference to
  the current scenario (\<^verbatim>\<open>None\<close> before the first spawn and after a reset).
\<close>

record analyzer =
  cfr :: "strategy CFRRegretMinimizer"
  patient_counter :: int
  current_state :: "addr option"

text \<open>\<^verbatim>\<open>DynamicRegretAnalyzer.__init__\<close> and the store before any object is allocated.\<close>

definition analyzer_init :: analyzer where
  "analyzer_init = \<lparr>cfr = cfr_init, patient_counter = 0, current_state = None\<rparr>"

text \<open>\<^verbatim>\<open>GameState()\<close> with the defaults of the dataclass.\<close>

definition default_state :: GameState where
  "default_state = \<lparr>patients = [], nurse_pos = ''ENT'', doctor_pos = ''ENT'',
     nurse_busy_until = 0, doctor_busy_until = 0, current_time = 0,
     total_reward = 0, total_penalty = 0, completed_patients = 0\<rparr>"

definition empty_heap :: heap where
  "empty_heap = \<lparr>patient_objs = (\<lambda>_. new_patient 0 Minor), patient_next = 0,
     state_objs = (\<lambda>_. default_state), state_next = 0\<rparr>"

text \<open>\<^verbatim>\<open>spawn_patient(ptype)\<close>; the result is the store, the analyzer and the new patient.\<close>

definition spawn_patient :: "heap \<Rightarrow> analyzer \<Rightarrow> patient_type \<Rightarrow> heap \<times> analyzer \<times> addr" where
  "spawn_patient h az t =
     (let az1 = az\<lparr>patient_counter := patient_counter az + 1\<rparr>;
          (h1, patient) = alloc_patient h (new_patient (patient_counter az1) t);
          (h2, az2) = (case current_state az1 of
                         None \<Rightarrow> (let (h', sa) = alloc_state h1 default_state
                                   in (h', az1\<lparr>current_state := Some sa\<rparr>))
                       | Some sa \<Rightarrow> (h1, az1));
          sa = the (current_state az2)
      in (upd_state h2 sa (\<lambda>s. s\<lparr>patients := patients s @ [patient]\<rparr>), az2, patient))"

text \<open>\<^verbatim>\<open>reset()\<close>\<close>

definition reset :: "analyzer \<Rightarrow> analyzer" where
  "reset az = az\<lparr>patient_counter := 0, current_state := None\<rparr>"

text \<open>
  The loop of \<^verbatim>\<open>step_patient\<close>: the first patient with the id is stepped unless it is
  complete, and the result is whether it is complete then; no patient with the id gives
  \<^verbatim>\<open>False\<close>.
\<close>

fun step_loop :: "heap \<Rightarrow> int \<Rightarrow> addr list \<Rightarrow> heap \<times> bool" where
  "step_loop h wanted_id [] = (h, False)"
| "step_loop h wanted_id (a # as) =
     (if pid (patient_objs h a) = wanted_id
      then (let h1 = (if \<not> is_complete (patient_objs h a)
                      then upd_patient h a (\<lambda>p. p\<lparr>current_step := current_step p + 1\<rparr>)
                      else h)
            in (h1, is_complete (patient_objs h1 a)))
      else step_loop h wanted_id as)"

definition step_patient :: "heap \<Rightarrow> analyzer \<Rightarrow> int \<Rightarrow> heap \<times> bool" where
  "step_patient h az wanted_id =
     (case current_state az of
        None \<Rightarrow> (h, False)
      | Some sa \<Rightarrow> step_loop h wanted_id (patients (state_objs h sa)))"

text \<open>\<^verbatim>\<open>remove_patient(patient_id)\<close>\<close>

definition remove_patient :: "heap \<Rightarrow> analyzer \<Rightarrow> int \<Rightarrow> heap" where
  "remove_patient h az wanted_id =
     (case current_state az of
        None \<Rightarrow> h
      | Some sa \<Rightarrow>
          upd_state h sa
            (\<lambda>s. s\<lparr>patients := filter (\<lambda>a. pid (patient_objs h a) \<noteq> wanted_id) (patients s)\<rparr>))"

section \<open>The patient invariant\<close>

definition patient_ok :: "Patient \<Rightarrow> bool" where
  "patient_ok p \<longleftrightarrow>
     0 \<le> health p \<and> health p \<le> 100
     \<and> 0 \<le> current_step p \<and> current_step p \<le> int (length (pathway p))
     \<and> (is_complete p \<longleftrightarrow> current_step p = int (length (pathway p)))"

definition heap_ok :: "heap \<Rightarrow> bool" where
  "heap_ok h \<longleftrightarrow> (\<forall>a < patient_next h. patient_ok (patient_objs h a))"

text \<open>
  The stores reached from the empty one by the operations on patients: spawning, the
  step-complete and remove operations, cloning, and the simulator: its waiting
  penalties for a time step that is not negative, its removals, an agent's action, a whole
  pass of the loop body, and a whole simulation. The address of the state and the
  analyzer are arbitrary, which admits more stores than the service reaches; a state
  that is cloned has a roster of allocated patients, as every state object has.
\<close>

inductive reachable_heap :: "heap \<Rightarrow> bool" where
  reach_empty: "reachable_heap empty_heap"
| reach_spawn: "reachable_heap h \<Longrightarrow> reachable_heap (fst (spawn_patient h az t))"
| reach_step: "reachable_heap h \<Longrightarrow> reachable_heap (fst (step_patient h az i))"
| reach_remove: "reachable_heap h \<Longrightarrow> reachable_heap (remove_patient h az i)"
| reach_clone: "reachable_heap h \<Longrightarrow> \<forall>a \<in> set (patients (state_objs h sa)). a < patient_next h \<Longrightarrow>
     reachable_heap (fst (clone_state h sa))"
| reach_waiting: "reachable_heap h \<Longrightarrow> 0 \<le> time_delta \<Longrightarrow>
     reachable_heap (fst (apply_waiting_penalties h sa time_delta))"
| reach_dead: "reachable_heap h \<Longrightarrow> reachable_heap (fst (remove_dead h sa m))"
| reach_action: "reachable_heap h \<Longrightarrow>
     reachable_heap (fst (execute_agent_action positions h sa ag act m))"
| reach_completed: "reachable_heap h \<Longrightarrow> reachable_heap (fst (remove_completed h sa m))"
| reach_tick: "reachable_heap h \<Longrightarrow>
     reachable_heap (fst (tick positions nurse_actions doctor_actions h sa ni di m))"
| reach_simulate: "reachable_heap h \<Longrightarrow> \<forall>a \<in> set (patients (state_objs h sa)). a < patient_next h \<Longrightarrow>
     reachable_heap (fst (simulate_action_sequence positions h sa nurse_actions doctor_actions T))"

section \<open>Dispatch of a treat action\<close>

text \<open>
  The patient object that \<^verbatim>\<open>_execute_agent_action\<close> selects for \<^verbatim>\<open>TREAT_PATIENT_k\<close>:
  \<^verbatim>\<open>patient_idx = k - 1\<close>, the guard \<^verbatim>\<open>patient_idx < len(state.patients)\<close> and
  \<^verbatim>\<open>state.patients[patient_idx]\<close>. \<open>None\<close> is no patient (the guard fails, or the
  index raises).
\<close>

definition dispatch_target :: "heap \<Rightarrow> addr \<Rightarrow> int \<Rightarrow> addr option" where
  "dispatch_target h sa k =
     (let patient_idx = k - 1
      in if patient_idx < int (length (patients (state_objs h sa)))
         then py_index (patients (state_objs h sa)) patient_idx
         else None)"

section \<open>The orchestrator (DynamicRegretAnalyzer.analyze_and_plan)\<close>

text \<open>\<^verbatim>\<open>get_statistics\<close>, which reads the learner and changes nothing.\<close>

record statistics =
  stat_total_iterations :: int
  stat_cumulative_regret :: real
  average_strategy :: "(strategy \<times> real) list"
  regret_by_strategy :: "(strategy \<times> real) list"
  strategy_frequency :: "(strategy \<times> real) list"
  nash_distance :: real

definition get_statistics :: "strategy CFRRegretMinimizer \<Rightarrow> statistics" where
  "get_statistics c =
     \<lparr>stat_total_iterations = total_iterations c,
      stat_cumulative_regret = cumulative_regret c,
      average_strategy = get_average_strategy c,
      regret_by_strategy = regret_sum c,
      strategy_frequency = strategy_sum c,
      nash_distance = (if distance_to_optimal_history c \<noteq> []
                       then last (distance_to_optimal_history c) else 1)\<rparr>"

text \<open>
  The result bundle. The assignment's strategy is the string \<^verbatim>\<open>'IDLE'\<close> or the name of a
  catalog strategy; \<open>all_strategy_values\<close> is absent from the IDLE bundle and is the empty
  dict there.
\<close>

datatype assigned = IDLE | Chosen strategy

record plan_result =
  success :: bool
  plan_strategy :: assigned
  plan_description :: string
  all_strategy_values :: "(strategy \<times> real) list"
  nurse_plan :: "command list"
  doctor_plan :: "command list"
  learning_stats :: statistics
  expected_reward :: real

definition NUM_CFR_ITERATIONS :: nat where
  "NUM_CFR_ITERATIONS = 20"

text \<open>
  The value of one simulation, from its metrics.
\<close>

definition simulation_value :: "metrics \<Rightarrow> real" where
  "simulation_value m =
     total_healing m * 1.0 + real_of_int (patients_completed m) * 50
       + real_of_int (cooperation_events m) * 10
       - metrics_total_penalty m * 1.0 - idle_time m * 2.0"

text \<open>
  The loop \<^verbatim>\<open>for _ in range(num_simulations)\<close> of \<^verbatim>\<open>evaluate_all_strategies\<close>, with the
  local \<^verbatim>\<open>total_reward\<close> as \<open>total_rew\<close>. Every pass generates the sequences from the state as it is and
  simulates them with the default \<^verbatim>\<open>simulation_time\<close> of 100.
\<close>

fun simulation_runs ::
  "(string \<times> real \<times> real) list \<Rightarrow> addr \<Rightarrow> strategy \<Rightarrow> nat \<Rightarrow> heap \<Rightarrow> real \<Rightarrow> heap \<times> real outcome" where
  "simulation_runs positions state strategy_name 0 h total_rew = (h, Returned total_rew)"
| "simulation_runs positions state strategy_name (Suc n) h total_rew =
     (let (nurse_actions, doctor_actions) = generate_action_sequences (roster h state) strategy_name
      in case simulate_action_sequence positions h state nurse_actions doctor_actions 100 of
           (h', Raised e) \<Rightarrow> (h', Raised e)
         | (h', Returned (final_state, m)) \<Rightarrow>
             simulation_runs positions state strategy_name n h' (total_rew + simulation_value m))"

text \<open>
  The loop \<^verbatim>\<open>for strategy_name in StrategyGenerator.STRATEGIES\<close>. The draw of
  \<^verbatim>\<open>np.random.normal(0, noise_scale)\<close> is an input of the model, \<open>noise strategy_name\<close>:
  the scale is positive, so every real number is a possible draw. The two divisions
  raise \<^verbatim>\<open>ZeroDivisionError\<close> for \<open>num_simulations = 0\<close> and for a learner whose iteration
  counter is \<open>-1\<close>.
\<close>

fun evaluate_loop ::
  "(string \<times> real \<times> real) list \<Rightarrow> addr \<Rightarrow> nat \<Rightarrow> int \<Rightarrow> (strategy \<Rightarrow> real) \<Rightarrow> strategy list
     \<Rightarrow> heap \<Rightarrow> (strategy \<times> real) list \<Rightarrow> heap \<times> (strategy \<times> real) list outcome" where
  "evaluate_loop positions state num_simulations iterations noise [] h svals =
     (h, Returned svals)"
| "evaluate_loop positions state num_simulations iterations noise (strategy_name # rest) h svals =
     (case simulation_runs positions state strategy_name num_simulations h 0 of
        (h', Raised e) \<Rightarrow> (h', Raised e)
      | (h', Returned total_rew) \<Rightarrow>
          if num_simulations = 0 \<or> iterations + 1 = 0 then (h', Raised ZeroDivisionError)
          else (let avg_value = total_rew / real num_simulations
                in evaluate_loop positions state num_simulations iterations noise rest h'
                     (dict_set svals strategy_name (avg_value + noise strategy_name))))"

text \<open>\<^verbatim>\<open>evaluate_all_strategies(state, num_simulations)\<close> of the analyzer with learner \<open>c\<close>.\<close>

definition evaluate_all_strategies ::
  "(string \<times> real \<times> real) list \<Rightarrow> heap \<Rightarrow> strategy CFRRegretMinimizer \<Rightarrow> addr \<Rightarrow> nat
     \<Rightarrow> (strategy \<Rightarrow> real) \<Rightarrow> heap \<times> (strategy \<times> real) list outcome" where
  "evaluate_all_strategies positions h c state num_simulations noise =
     evaluate_loop positions state num_simulations (total_iterations c) noise STRATEGY_NAMES h []"

text \<open>
  The body of \<^verbatim>\<open>for iteration in range(NUM_CFR_ITERATIONS)\<close> on the learner, after the
  evaluation has returned \<open>svals\<close> (the dict \<^verbatim>\<open>strategy_values\<close>). \<^verbatim>\<open>select_strategy\<close>
  reads the current policy once more before it draws; the strategy it draws is an input
  of the model, \<open>selected\<close>.
\<close>

definition plan_round ::
  "strategy CFRRegretMinimizer \<Rightarrow> (strategy \<times> real) list \<Rightarrow> strategy \<Rightarrow> strategy CFRRegretMinimizer" where
  "plan_round c svals selected =
     (let strategies = map fst svals;
          (c1, probs) = get_strategy_probabilities c strategies;
          (c2, probs_of_selection) = get_strategy_probabilities c1 strategies;
          c3 = update_regrets c2 svals selected
      in record_iteration c3 svals selected probs (dict_get svals selected 0))"

text \<open>
  The loop, over the iteration numbers: the store, the learner and the local
  \<^verbatim>\<open>strategy_values\<close>, which holds the dict of the latest round after the loop. Round
  \<open>i\<close> draws the noise \<open>noise_of i\<close> and the strategy \<open>selected_of i\<close>. An exception of an
  evaluation leaves the loop with the learner as the rounds before have made it.
\<close>

fun plan_rounds ::
  "(string \<times> real \<times> real) list \<Rightarrow> addr \<Rightarrow> (nat \<Rightarrow> strategy \<Rightarrow> real) \<Rightarrow> (nat \<Rightarrow> strategy) \<Rightarrow> nat list
     \<Rightarrow> heap \<Rightarrow> strategy CFRRegretMinimizer \<Rightarrow> (strategy \<times> real) list
     \<Rightarrow> heap \<times> strategy CFRRegretMinimizer \<times> (strategy \<times> real) list outcome" where
  "plan_rounds positions state noise_of selected_of [] h c svals = (h, c, Returned svals)"
| "plan_rounds positions state noise_of selected_of (i # rest) h c svals =
     (case evaluate_all_strategies positions h c state 5 (noise_of i) of
        (h', Raised e) \<Rightarrow> (h', c, Raised e)
      | (h', Returned sv) \<Rightarrow>
          plan_rounds positions state noise_of selected_of rest h'
            (plan_round c sv (selected_of i)) sv)"

text \<open>
  \<^verbatim>\<open>analyze_and_plan()\<close>: the store, the analyzer and the bundle after the call.
  \<^verbatim>\<open>max\<close> of an empty dict raises \<^verbatim>\<open>ValueError\<close>.
\<close>

definition analyze_and_plan ::
  "(string \<times> real \<times> real) list \<Rightarrow> heap \<Rightarrow> analyzer \<Rightarrow> (nat \<Rightarrow> strategy \<Rightarrow> real) \<Rightarrow> (nat \<Rightarrow> strategy)
     \<Rightarrow> heap \<times> analyzer \<times> plan_result outcome" where
  "analyze_and_plan positions h az noise_of selected_of =
     (if current_state az = None \<or> patients (state_objs h (the (current_state az))) = []
      then (h, az, Returned
              \<lparr>success = True, plan_strategy = IDLE, plan_description = ''No patients'',
               all_strategy_values = [], nurse_plan = [], doctor_plan = [],
               learning_stats = get_statistics (cfr az), expected_reward = 0\<rparr>)
      else
        (case plan_rounds positions (the (current_state az)) noise_of selected_of
                [0..<NUM_CFR_ITERATIONS] h (cfr az) [] of
           (h', c, Raised e) \<Rightarrow> (h', az\<lparr>cfr := c\<rparr>, Raised e)
         | (h', c, Returned svals) \<Rightarrow>
             (let az' = az\<lparr>cfr := c\<rparr>;
                  avg_strategy = get_average_strategy c;
                  best = (if avg_strategy \<noteq> [] then py_max_key avg_strategy
                          else py_max_key svals)
              in case best of
                   None \<Rightarrow> (h', az', Raised ValueError)
                 | Some best_strategy \<Rightarrow>
                     (let (nurse_commands, doctor_commands) =
                            generate_unity_commands (roster h' (the (current_state az))) best_strategy
                      in (h', az', Returned
                            \<lparr>success = True, plan_strategy = Chosen best_strategy,
                             plan_description = description (strategy_info_of best_strategy),
                             all_strategy_values = svals,
                             nurse_plan = nurse_commands, doctor_plan = doctor_commands,
                             learning_stats = get_statistics c,
                             expected_reward = dict_get svals best_strategy 0\<rparr>)))))"

section \<open>Coverage of a patient by two command lists\<close>

text \<open>The rooms of the TREAT commands for patient id \<open>i\<close>, in the order of the list.\<close>

definition treat_targets :: "int \<Rightarrow> command list \<Rightarrow> string list" where
  "treat_targets i cmds = map target (filter (\<lambda>c. action c = TREAT \<and> patient_id c = i) cmds)"

text \<open>
  Two command lists cover a patient when its pathway can be read off them in order: the
  pathway is an interleaving of a subsequence of the nurse's TREAT rooms for that patient
  and a subsequence of the doctor's, so every pathway step has a TREAT command of its own
  and each agent's commands keep the pathway order.
\<close>

definition covers :: "Patient \<Rightarrow> command list \<Rightarrow> command list \<Rightarrow> bool" where
  "covers p ncs dcs \<longleftrightarrow>
     (\<exists>ns ds. subseq ns (treat_targets (pid p) ncs) \<and> subseq ds (treat_targets (pid p) dcs)
        \<and> pathway p \<in> shuffles ns ds)"

text \<open>Which agent the primary generation gives a TREAT command for a pathway step.\<close>

definition nurse_treats :: "strategy \<Rightarrow> Patient \<Rightarrow> string \<Rightarrow> bool" where
  "nurse_treats s p room \<longleftrightarrow>
     (if s = DOCTOR_CRITICAL_NURSE_OTHERS then ptype p \<noteq> Critical
      else if s = NURSE_TRIAGE_DOCTOR_TREAT then room = ''TRIAGE''
      else True)"

definition doctor_treats :: "strategy \<Rightarrow> Patient \<Rightarrow> string \<Rightarrow> bool" where
  "doctor_treats s p room \<longleftrightarrow>
     (if s = DOCTOR_CRITICAL_NURSE_OTHERS then ptype p = Critical
      else if s = NURSE_TRIAGE_DOCTOR_TREAT then room \<noteq> ''TRIAGE''
      else if s = PARALLEL_CRITICAL then ptype p = Critical
      else if s = COOPERATIVE_ALL then True
      else ptype p = Critical \<and> (room = ''TB'' \<or> room = ''ICU''))"

section \<open>Facts about dictionaries\<close>

lemma map_of_dict_set: "map_of (dict_set d k v) = (map_of d)(k \<mapsto> v)"
  by (induction d) (auto simp: fun_eq_iff)

lemma keys_dict_set:
  "map fst (dict_set d k v) = (if k \<in> fst ` set d then map fst d else map fst d @ [k])"
  by (induction d) force+

lemma dict_set_new: "k \<notin> fst ` set d \<Longrightarrow> dict_set d k v = d @ [(k, v)]"
  by (induction d) auto

lemma dict_get_dict_set:
  "dict_get (dict_set d k v) k' dflt = (if k' = k then v else dict_get d k' dflt)"
  by (simp add: dict_get_def map_of_dict_set)

lemma fold_dict_set_distinct:
  "distinct (map fst (acc @ kvs)) \<Longrightarrow> fold (\<lambda>(k, v) d. dict_set d k v) kvs acc = acc @ kvs"
proof (induction kvs arbitrary: acc)
  case Nil
  then show ?case by simp
next
  case (Cons kv kvs)
  obtain k v where kv: "kv = (k, v)" by (cases kv)
  from Cons.prems have new: "k \<notin> fst ` set acc" by (auto simp: kv)
  from Cons.prems have "distinct (map fst ((acc @ [(k, v)]) @ kvs))" by (simp add: kv)
  from Cons.IH [OF this] show ?case by (simp add: kv dict_set_new [OF new])
qed

lemma dict_of_distinct: "distinct (map fst kvs) \<Longrightarrow> dict_of kvs = kvs"
  using fold_dict_set_distinct [of "[]" kvs] by (simp add: dict_of_def)

lemma dd_getitem_snd: "snd (dd_getitem d k) = dict_get d k 0"
  by (simp add: dd_getitem_def dict_get_def split: option.splits)

lemma dd_getitem_get: "dict_get (fst (dd_getitem d k)) k' 0 = dict_get d k' 0"
  by (auto simp: dd_getitem_def dict_get_def map_of_dict_set split: option.splits)

lemma read_regrets_snd:
  "snd (read_regrets d ss) = map (\<lambda>s. (s, max 0 (dict_get d s 0))) ss"
proof (induction ss arbitrary: d)
  case Nil
  then show ?case by simp
next
  case (Cons s ss)
  show ?case
    using Cons.IH [of "fst (dd_getitem d s)"] dd_getitem_snd [of d s]
    by (simp add: split_def Let_def dd_getitem_get)
qed

lemma read_regrets_get: "dict_get (fst (read_regrets d ss)) k 0 = dict_get d k 0"
proof (induction ss arbitrary: d)
  case Nil
  then show ?case by simp
next
  case (Cons s ss)
  show ?case
    using Cons.IH [of "fst (dd_getitem d s)"]
    by (simp add: split_def Let_def dd_getitem_get)
qed

lemma dd_add_get:
  "dict_get (dd_add d k x) k' 0 = (if k' = k then dict_get d k 0 + x else dict_get d k' 0)"
  using dd_getitem_snd [of d k] dd_getitem_get [of d k k']
  by (simp add: dd_add_def split_def dict_get_dict_set)


lemma keys_set_dict_set: "fst ` set (dict_set d k v) = insert k (fst ` set d)"
proof -
  have "set (map fst (dict_set d k v)) = insert k (set (map fst d))"
    unfolding keys_dict_set by auto
  then show ?thesis by simp
qed

lemma dd_add_keys:
  "map fst (dd_add d k x) = (if k \<in> fst ` set d then map fst d else map fst d @ [k])"
proof (cases "map_of d k")
  case None
  then have "k \<notin> fst ` set d" by (simp add: map_of_eq_None_iff)
  with None show ?thesis
    by (simp add: dd_add_def dd_getitem_def keys_dict_set keys_set_dict_set)
next
  case (Some v)
  then have "k \<in> fst ` set d" by (metis map_of_eq_None_iff option.distinct(1))
  with Some show ?thesis
    by (simp add: dd_add_def dd_getitem_def keys_dict_set)
qed

lemma dict_values_via_get:
  "distinct (map fst d) \<Longrightarrow> map snd d = map (\<lambda>k. dict_get d k dflt) (map fst d)"
proof (induction d)
  case Nil
  then show ?case by simp
next
  case (Cons a d)
  obtain k v where a: "a = (k, v)" by (cases a)
  from Cons.prems a have "k \<notin> fst ` set d" by simp
  then have "map (\<lambda>k'. dict_get ((k, v) # d) k' dflt) (map fst d) = map (\<lambda>k'. dict_get d k' dflt) (map fst d)"
    by (intro map_cong) (auto simp: dict_get_def)
  with Cons a show ?case by (simp add: dict_get_def)
qed

section \<open>Facts about the regret minimizer\<close>

lemma gsp_fst:
  "fst (get_strategy_probabilities c ss) = c\<lparr>regret_sum := fst (read_regrets (regret_sum c) ss)\<rparr>"
  by (simp add: get_strategy_probabilities_def split_def Let_def)

lemma gsp_regret_get:
  "dict_get (regret_sum (fst (get_strategy_probabilities c ss))) k 0 = dict_get (regret_sum c) k 0"
  by (simp add: gsp_fst read_regrets_get)

lemma add_regrets_fields:
  "cumulative_regret (add_regrets nv svals c) = cumulative_regret c"
  "regret_history (add_regrets nv svals c) = regret_history c"
  "total_iterations (add_regrets nv svals c) = total_iterations c"
  "strategy_sum (add_regrets nv svals c) = strategy_sum c"
  "iteration_history (add_regrets nv svals c) = iteration_history c"
  "distance_to_optimal_history (add_regrets nv svals c) = distance_to_optimal_history c"
  "prev_probs (add_regrets nv svals c) = prev_probs c"
  by (induction nv svals c rule: add_regrets.induct) simp_all

lemma add_regrets_get:
  "dict_get (regret_sum (add_regrets nv svals c)) k 0 =
     dict_get (regret_sum c) k 0 + (\<Sum>(s, v)\<leftarrow>svals. if s = k then v - nv else 0)"
  by (induction nv svals c rule: add_regrets.induct) (simp_all add: dd_add_get)

lemma sum_list_key_distinct:
  "distinct (map fst svals) \<Longrightarrow> (k, v) \<in> set svals \<Longrightarrow>
     (\<Sum>(s, w)\<leftarrow>svals. if s = k then f w else (0::real)) = f v"
proof (induction svals)
  case Nil
  then show ?case by simp
next
  case (Cons a svals)
  obtain s w where a: "a = (s, w)" by (cases a)
  show ?case
  proof (cases "s = k")
    case True
    with Cons.prems a have "w = v" by (auto simp: image_iff)
    moreover from Cons.prems a True have "\<forall>(s', w') \<in> set svals. s' \<noteq> k" by (auto simp: image_iff)
    then have "(\<Sum>(s, w)\<leftarrow>svals. if s = k then f w else (0::real)) = 0"
      by (induction svals) auto
    ultimately show ?thesis using a True by simp
  next
    case False
    with Cons a show ?thesis by auto
  qed
qed

lemma sum_list_key_absent:
  "k \<notin> fst ` set svals \<Longrightarrow> (\<Sum>(s, w)\<leftarrow>svals. if s = k then f w else (0::real)) = 0"
  by (induction svals) auto

lemma py_max_Max: "xs \<noteq> [] \<Longrightarrow> py_max xs = Max (set xs)"
  by (induction xs rule: py_max.induct) (simp_all)

lemma update_regrets_empty: "update_regrets c [] sel = c"
  by (simp add: update_regrets_def)

lemma update_regrets_fields:
  fixes c :: "'k CFRRegretMinimizer" and svals :: "('k \<times> real) list"
  assumes "svals \<noteq> []"
  defines "V \<equiv> node_value_of (snd (get_strategy_probabilities c (map fst svals))) svals (map fst svals)"
  shows "cumulative_regret (update_regrets c svals sel) = cumulative_regret c + (py_max (map snd svals) - V)"
    and "regret_history (update_regrets c svals sel) = regret_history c @ [cumulative_regret c + (py_max (map snd svals) - V)]"
    and "total_iterations (update_regrets c svals sel) = total_iterations c + 1"
    and "dict_get (regret_sum (update_regrets c svals sel)) k 0 =
          dict_get (regret_sum c) k 0 + (\<Sum>(s, v)\<leftarrow>svals. if s = k then v - V else 0)"
    and "strategy_sum (update_regrets c svals sel) = strategy_sum c"
  using assms(1) unfolding V_def
  by (simp_all add: update_regrets_def Let_def split_def gsp_fst add_regrets_fields add_regrets_get read_regrets_get)

lemma sum_list_divide_const: "(\<Sum>x\<leftarrow>xs. f x / (c::real)) = (\<Sum>x\<leftarrow>xs. f x) / c"
  by (induction xs) (simp_all add: add_divide_distrib)

lemma gsp_snd_distinct:
  assumes "distinct ss"
  shows "snd (get_strategy_probabilities c ss) =
     (let total = (\<Sum>s\<leftarrow>ss. max 0 (dict_get (regret_sum c) s 0))
      in if total > 0 then map (\<lambda>s. (s, max 0 (dict_get (regret_sum c) s 0) / total)) ss
         else map (\<lambda>s. (s, 1 / real (length ss))) ss)"
proof -
  have d1: "distinct (map fst (map (\<lambda>s. (s, max 0 (dict_get (regret_sum c) s 0))) ss))"
    using assms by (simp add: comp_def)
  have d2: "distinct (map fst (map (\<lambda>s. (s, 1 / real (length ss))) ss))"
    using assms by (simp add: comp_def)
  show ?thesis
    using read_regrets_snd [of "regret_sum c" ss]
    by (simp add: get_strategy_probabilities_def split_def Let_def
        dict_of_distinct [OF d1] dict_of_distinct [OF d2] comp_def)
qed

lemma gsp_keys: "distinct ss \<Longrightarrow> map fst (snd (get_strategy_probabilities c ss)) = ss"
  by (simp add: gsp_snd_distinct Let_def comp_def)

lemma gsp_nonneg:
  assumes "distinct ss" and "p \<in> snd ` set (snd (get_strategy_probabilities c ss))"
  shows "0 \<le> p"
  using assms by (auto simp: gsp_snd_distinct Let_def split: if_splits)

lemma gsp_sum_one:
  assumes "distinct ss" and "ss \<noteq> []"
  shows "sum_list (map snd (snd (get_strategy_probabilities c ss))) = 1"
proof -
  let ?T = "(\<Sum>s\<leftarrow>ss. max 0 (dict_get (regret_sum c) s 0))"
  show ?thesis
  proof (cases "?T > 0")
    case True
    then show ?thesis
      using assms by (simp add: gsp_snd_distinct comp_def sum_list_divide_const)
  next
    case False
    have "(\<Sum>s\<leftarrow>ss. 1 / real (length ss)) = real (length ss) * (1 / real (length ss))"
      by (simp add: sum_list_triv)
    with False assms show ?thesis
      by (simp add: gsp_snd_distinct comp_def)
  qed
qed

lemma gsp_uniform:
  assumes "distinct ss" and "\<forall>s \<in> set ss. dict_get (regret_sum c) s 0 \<le> 0"
  shows "snd (get_strategy_probabilities c ss) = map (\<lambda>s. (s, 1 / real (length ss))) ss"
proof -
  have "(\<Sum>s\<leftarrow>ss. max 0 (dict_get (regret_sum c) s 0)) = (\<Sum>s\<leftarrow>ss. 0)"
    using assms(2) by (intro arg_cong [where f = sum_list] map_cong) (auto simp: max_def)
  then show ?thesis using assms(1) by (simp add: gsp_snd_distinct)
qed

lemma STRATEGY_NAMES_eq:
  "STRATEGY_NAMES = [PARALLEL_CRITICAL, SEQUENTIAL_SEVERITY, DOCTOR_CRITICAL_NURSE_OTHERS,
     COOPERATIVE_ALL, NEAREST_FIRST, NURSE_TRIAGE_DOCTOR_TREAT]"
  by (simp add: STRATEGY_NAMES_def STRATEGIES_def)

lemma distinct_STRATEGY_NAMES: "distinct STRATEGY_NAMES"
  by (simp add: STRATEGY_NAMES_eq)

lemma length_STRATEGY_NAMES: "length STRATEGY_NAMES = 6"
  by (simp add: STRATEGY_NAMES_eq)

lemma set_STRATEGY_NAMES: "set STRATEGY_NAMES = UNIV"
proof -
  have "s \<in> set STRATEGY_NAMES" for s by (cases s) (simp_all add: STRATEGY_NAMES_eq)
  then show ?thesis by auto
qed

lemma add_strategy_sum_get:
  "dict_get (add_strategy_sum probs d) k 0 =
     dict_get d k 0 + (\<Sum>(s, p)\<leftarrow>probs. if s = k then p else 0)"
  by (induction probs d rule: add_strategy_sum.induct) (simp_all add: dd_add_get)

lemma add_strategy_sum_keys_subset:
  "fst ` set probs \<subseteq> fst ` set d \<Longrightarrow> map fst (add_strategy_sum probs d) = map fst d"
proof (induction probs d rule: add_strategy_sum.induct)
  case (1 d)
  then show ?case by simp
next
  case (2 s p rest d)
  from 2 have in_d: "s \<in> fst ` set d" by auto
  then have k: "map fst (dd_add d s p) = map fst d" by (simp add: dd_add_keys)
  then have "fst ` set (dd_add d s p) = fst ` set d" by (metis set_map)
  with 2 k show ?case by auto
qed

lemma add_strategy_sum_keys_empty:
  "distinct (map fst probs) \<Longrightarrow> fst ` set d \<inter> fst ` set probs = {} \<Longrightarrow>
     map fst (add_strategy_sum probs d) = map fst d @ map fst probs"
proof (induction probs d rule: add_strategy_sum.induct)
  case (1 d)
  then show ?case by simp
next
  case (2 s p rest d)
  from 2 have nin: "s \<notin> fst ` set d" by auto
  then have k: "map fst (dd_add d s p) = map fst d @ [s]" by (simp add: dd_add_keys)
  then have ks: "fst ` set (dd_add d s p) = insert s (fst ` set d)" by (metis set_map set_append list.set Un_insert_right sup_bot.right_neutral)
  have "map fst (add_strategy_sum rest (dd_add d s p)) = map fst (dd_add d s p) @ map fst rest"
    using 2 ks k by (intro "2.IH") (auto)
  with k show ?case by simp
qed

lemma sum_key_is_get:
  assumes "distinct (map fst probs)"
  shows "(\<Sum>(s, p)\<leftarrow>probs. if s = k then p else (0::real)) = dict_get probs k 0"
proof (cases "map_of probs k")
  case None
  then have "k \<notin> fst ` set probs" by (simp add: map_of_eq_None_iff)
  from sum_list_key_absent [OF this, of "\<lambda>p. p"] None show ?thesis
    by (simp add: dict_get_def)
next
  case (Some v)
  then have "(k, v) \<in> set probs" by (rule map_of_SomeD)
  from sum_list_key_distinct [OF assms this, of "\<lambda>p. p"] Some show ?thesis
    by (simp add: dict_get_def)
qed

definition sum_inv :: "strategy CFRRegretMinimizer \<Rightarrow> bool" where
  "sum_inv c \<longleftrightarrow>
     (if iteration_history c = [] then strategy_sum c = []
      else map fst (strategy_sum c) = STRATEGY_NAMES
           \<and> (\<forall>k. 0 \<le> dict_get (strategy_sum c) k 0)
           \<and> (\<Sum>k\<leftarrow>STRATEGY_NAMES. dict_get (strategy_sum c) k 0) = real (length (iteration_history c)))"

lemma update_regrets_history: "iteration_history (update_regrets c svals sel) = iteration_history c"
  by (simp add: update_regrets_def Let_def split_def gsp_fst add_regrets_fields)

lemma update_regrets_strategy_sum: "strategy_sum (update_regrets c svals sel) = strategy_sum c"
  by (simp add: update_regrets_def Let_def split_def gsp_fst add_regrets_fields)

lemma policy_get_nonneg:
  "0 \<le> dict_get (snd (get_strategy_probabilities c0 STRATEGY_NAMES)) k 0"
proof (cases "map_of (snd (get_strategy_probabilities c0 STRATEGY_NAMES)) k")
  case None
  then show ?thesis by (simp add: dict_get_def)
next
  case (Some v)
  then have "(k, v) \<in> set (snd (get_strategy_probabilities c0 STRATEGY_NAMES))" by (rule map_of_SomeD)
  then have "v \<in> snd ` set (snd (get_strategy_probabilities c0 STRATEGY_NAMES))" by force
  from gsp_nonneg [OF distinct_STRATEGY_NAMES this] Some show ?thesis by (simp add: dict_get_def)
qed

lemma policy_get_sum:
  "(\<Sum>k\<leftarrow>STRATEGY_NAMES. dict_get (snd (get_strategy_probabilities c0 STRATEGY_NAMES)) k 0) = 1"
proof -
  let ?P = "snd (get_strategy_probabilities c0 STRATEGY_NAMES)"
  have keys: "map fst ?P = STRATEGY_NAMES" by (rule gsp_keys [OF distinct_STRATEGY_NAMES])
  then have "distinct (map fst ?P)" by (simp add: distinct_STRATEGY_NAMES)
  from dict_values_via_get [OF this, of 0] keys
  have "map snd ?P = map (\<lambda>k. dict_get ?P k 0) STRATEGY_NAMES" by simp
  moreover have "sum_list (map snd ?P) = 1"
    by (rule gsp_sum_one [OF distinct_STRATEGY_NAMES]) (simp add: STRATEGY_NAMES_eq)
  ultimately show ?thesis by simp
qed

lemma record_iteration_inv:
  assumes "sum_inv c"
  shows "sum_inv (record_iteration c svals sel (snd (get_strategy_probabilities c0 STRATEGY_NAMES)) rew)"
proof -
  let ?P = "snd (get_strategy_probabilities c0 STRATEGY_NAMES)"
  let ?c' = "record_iteration c svals sel ?P rew"
  have keysP: "map fst ?P = STRATEGY_NAMES" by (rule gsp_keys [OF distinct_STRATEGY_NAMES])
  then have dP: "distinct (map fst ?P)" by (simp add: distinct_STRATEGY_NAMES)
  have setP: "fst ` set ?P = set STRATEGY_NAMES" using keysP by (metis set_map)
  have ss: "strategy_sum ?c' = add_strategy_sum ?P (strategy_sum c)"
    by (simp add: record_iteration_def Let_def)
  have hist: "iteration_history ?c' \<noteq> []" "length (iteration_history ?c') = Suc (length (iteration_history c))"
    by (simp_all add: record_iteration_def Let_def)
  have get: "dict_get (strategy_sum ?c') k 0 = dict_get (strategy_sum c) k 0 + dict_get ?P k 0" for k
    by (simp add: ss add_strategy_sum_get sum_key_is_get [OF dP])
  have keys: "map fst (strategy_sum ?c') = STRATEGY_NAMES"
  proof (cases "iteration_history c = []")
    case True
    with assms have "strategy_sum c = []" by (simp add: sum_inv_def)
    then show ?thesis
      using add_strategy_sum_keys_empty [OF dP, of "[]"] keysP by (simp add: ss)
  next
    case False
    with assms have "map fst (strategy_sum c) = STRATEGY_NAMES" by (simp add: sum_inv_def)
    then have "fst ` set (strategy_sum c) = set STRATEGY_NAMES" by (metis set_map)
    with setP have "fst ` set ?P \<subseteq> fst ` set (strategy_sum c)" by simp
    from add_strategy_sum_keys_subset [OF this] \<open>map fst (strategy_sum c) = STRATEGY_NAMES\<close>
    show ?thesis by (simp add: ss)
  qed
  have old_nonneg: "0 \<le> dict_get (strategy_sum c) k 0" for k
    using assms by (cases "iteration_history c = []") (simp_all add: sum_inv_def dict_get_def)
  have old_sum: "(\<Sum>k\<leftarrow>STRATEGY_NAMES. dict_get (strategy_sum c) k 0) = real (length (iteration_history c))"
    using assms by (cases "iteration_history c = []") (simp_all add: sum_inv_def dict_get_def)
  have nonneg: "0 \<le> dict_get (strategy_sum ?c') k 0" for k
    using old_nonneg [of k] policy_get_nonneg [of c0 k] by (simp add: get)
  have "(\<Sum>k\<leftarrow>STRATEGY_NAMES. dict_get (strategy_sum ?c') k 0) =
        (\<Sum>k\<leftarrow>STRATEGY_NAMES. dict_get (strategy_sum c) k 0) + (\<Sum>k\<leftarrow>STRATEGY_NAMES. dict_get ?P k 0)"
    by (simp add: get sum_list_addf)
  also have "\<dots> = real (length (iteration_history ?c'))"
    using old_sum policy_get_sum [of c0] hist by simp
  finally show ?thesis using hist keys nonneg by (simp add: sum_inv_def)
qed

lemma reachable_sum_inv: "reachable_cfr c \<Longrightarrow> sum_inv c"
proof (induction rule: reachable_cfr.induct)
  case reach_init
  then show ?case by (simp add: sum_inv_def cfr_init_def)
next
  case (reach_policy c)
  then show ?case by (simp add: sum_inv_def gsp_fst)
next
  case (reach_update c svals selected)
  then show ?case by (simp add: sum_inv_def update_regrets_history update_regrets_strategy_sum)
next
  case (reach_record c svals selected c0 rew)
  then show ?case by (simp add: record_iteration_inv)
qed

lemma average_of_inv:
  assumes "sum_inv c" and "iteration_history c \<noteq> []"
  shows "map fst (get_average_strategy c) = STRATEGY_NAMES"
    and "\<forall>p \<in> snd ` set (get_average_strategy c). 0 \<le> p"
    and "sum_list (map snd (get_average_strategy c)) = 1"
proof -
  let ?d = "strategy_sum c"
  let ?n = "real (length (iteration_history c))"
  from assms have keys: "map fst ?d = STRATEGY_NAMES"
    and nonneg: "\<And>k. 0 \<le> dict_get ?d k 0"
    and total: "(\<Sum>k\<leftarrow>STRATEGY_NAMES. dict_get ?d k 0) = ?n"
    by (simp_all add: sum_inv_def)
  from keys have dist: "distinct (map fst ?d)" by (simp add: distinct_STRATEGY_NAMES)
  from dict_values_via_get [OF dist, of 0] keys
  have vals: "map snd ?d = map (\<lambda>k. dict_get ?d k 0) STRATEGY_NAMES" by simp
  with total have sum: "sum_list (map snd ?d) = ?n" by simp
  from assms(2) have pos: "0 < ?n" by simp
  have avg: "get_average_strategy c = map (\<lambda>(s, v). (s, v / ?n)) ?d"
    using sum pos by (simp add: get_average_strategy_def Let_def)
  show "map fst (get_average_strategy c) = STRATEGY_NAMES"
    using keys by (simp add: avg split_def comp_def)
  have "0 \<le> v" if "(s, v) \<in> set ?d" for s v
  proof -
    from that dist have "map_of ?d s = Some v" by simp
    with nonneg [of s] show ?thesis by (simp add: dict_get_def)
  qed
  then show "\<forall>p \<in> snd ` set (get_average_strategy c). 0 \<le> p"
    using pos by (auto simp: avg)
  have "map snd (get_average_strategy c) = map (\<lambda>v. v / ?n) (map snd ?d)"
    by (simp add: avg split_def comp_def)
  then have "sum_list (map snd (get_average_strategy c)) = sum_list (map snd ?d) / ?n"
    by (simp add: sum_list_divide_const comp_def)
  with sum pos show "sum_list (map snd (get_average_strategy c)) = 1" by simp
qed

section \<open>Regret update (claim C3)\<close>

lemma node_value_as_sum:
  assumes "distinct (map fst svals)"
  shows "node_value_of probs svals (map fst svals) = (\<Sum>(s, v)\<leftarrow>svals. dict_get probs s 0 * v)"
proof -
  have "dict_get svals s 0 = v" if "(s, v) \<in> set svals" for s v
    using assms that by (simp add: dict_get_def)
  then have eq: "map ((\<lambda>s. dict_get probs s 0 * dict_get svals s 0) \<circ> fst) svals
      = map (\<lambda>(s, v). dict_get probs s 0 * v) svals"
    by (intro map_cong) auto
  show ?thesis by (simp only: node_value_of_def map_map eq)
qed

text \<open>
  Claim C3. For a non-empty value dict, \<^verbatim>\<open>update_regrets\<close> adds \<open>values[s] - V\<close> to
  the regret of every strategy \<open>s\<close> of the dict, where \<open>V\<close> is the expected value of the
  dict under the regret-matching policy over its keys; it adds \<open>max(values) - V\<close> to the
  cumulative regret, appends the new cumulative regret to the regret history, and
  increments the iteration counter by one. For the empty dict it returns the learner
  unchanged.
\<close>

theorem update_regrets_spec:
  "update_regrets c [] sel0 = c \<and>
   (svals \<noteq> [] \<and> distinct (map fst svals) \<longrightarrow>
     (let policy = snd (get_strategy_probabilities c (map fst svals));
          V = (\<Sum>(s, v)\<leftarrow>svals. dict_get policy s 0 * v);
          c' = update_regrets c svals sel
      in (\<forall>(s, v) \<in> set svals.
            dict_get (regret_sum c') s 0 = dict_get (regret_sum c) s 0 + (v - V))
         \<and> cumulative_regret c' = cumulative_regret c + (Max (snd ` set svals) - V)
         \<and> regret_history c' = regret_history c @ [cumulative_regret c']
         \<and> total_iterations c' = total_iterations c + 1))"
proof (intro conjI impI)
  show "update_regrets c [] sel0 = c" by (rule update_regrets_empty)
next
  assume a: "svals \<noteq> [] \<and> distinct (map fst svals)"
  then have ne: "svals \<noteq> []" and dist: "distinct (map fst svals)" by simp_all
  let ?policy = "snd (get_strategy_probabilities c (map fst svals))"
  let ?V = "(\<Sum>(s, v)\<leftarrow>svals. dict_get ?policy s 0 * v)"
  let ?c' = "update_regrets c svals sel"
  have V: "node_value_of ?policy svals (map fst svals) = ?V"
    by (rule node_value_as_sum [OF dist])
  have mx: "py_max (map snd svals) = Max (snd ` set svals)"
    using ne py_max_Max [of "map snd svals"] by simp
  note f = update_regrets_fields [OF ne, of c sel, unfolded V mx]
  have r: "dict_get (regret_sum ?c') s 0 = dict_get (regret_sum c) s 0 + (v - ?V)"
    if "(s, v) \<in> set svals" for s v
    using f(4) [of s] sum_list_key_distinct [OF dist that, of "\<lambda>w. w - ?V"] by simp
  show "let policy = ?policy; V = (\<Sum>(s, v)\<leftarrow>svals. dict_get policy s 0 * v); c' = ?c'
      in (\<forall>(s, v) \<in> set svals.
            dict_get (regret_sum c') s 0 = dict_get (regret_sum c) s 0 + (v - V))
         \<and> cumulative_regret c' = cumulative_regret c + (Max (snd ` set svals) - V)
         \<and> regret_history c' = regret_history c @ [cumulative_regret c']
         \<and> total_iterations c' = total_iterations c + 1"
    unfolding Let_def using r f(1) f(2) f(3) by auto
qed

lemma gsp_init_two:
  "snd (get_strategy_probabilities (cfr_init :: strategy CFRRegretMinimizer) [PARALLEL_CRITICAL, COOPERATIVE_ALL])
     = [(PARALLEL_CRITICAL, 1/2), (COOPERATIVE_ALL, 1/2)]"
  by (simp add: gsp_snd_distinct cfr_init_def dict_get_def)

theorem update_regrets_spec_witness:
  "[(PARALLEL_CRITICAL, 3), (COOPERATIVE_ALL, 1::real)] \<noteq> []
   \<and> distinct (map fst [(PARALLEL_CRITICAL, 3), (COOPERATIVE_ALL, 1::real)])
   \<and> dict_get (regret_sum (update_regrets cfr_init [(PARALLEL_CRITICAL, 3), (COOPERATIVE_ALL, 1)] COOPERATIVE_ALL))
        PARALLEL_CRITICAL 0 = 1
   \<and> dict_get (regret_sum (update_regrets cfr_init [(PARALLEL_CRITICAL, 3), (COOPERATIVE_ALL, 1)] COOPERATIVE_ALL))
        COOPERATIVE_ALL 0 = - 1
   \<and> cumulative_regret (update_regrets cfr_init [(PARALLEL_CRITICAL, 3), (COOPERATIVE_ALL, 1)] COOPERATIVE_ALL) = 1
   \<and> regret_history (update_regrets cfr_init [(PARALLEL_CRITICAL, 3), (COOPERATIVE_ALL, 1)] COOPERATIVE_ALL) = [1]
   \<and> total_iterations (update_regrets cfr_init [(PARALLEL_CRITICAL, 3), (COOPERATIVE_ALL, 1)] COOPERATIVE_ALL) = 1"
  using update_regrets_spec [of cfr_init COOPERATIVE_ALL
      "[(PARALLEL_CRITICAL, 3), (COOPERATIVE_ALL, 1)]" COOPERATIVE_ALL]
  by (simp add: Let_def gsp_init_two dict_get_def) (simp add: cfr_init_def dict_get_def)

section \<open>Policies are distributions (claim C2)\<close>

text \<open>
  Claim C2, as amended. In every learner state the current policy over the catalog has
  the six catalog strategies as its keys, non-negative probabilities and sum 1, and is
  uniform when no strategy has positive accumulated regret. In every reachable learner
  state that has recorded an iteration the average policy has the same three properties;
  in a reachable state with no recorded iteration the average policy is the empty dict.
\<close>

theorem policies_are_distributions:
  "(let policy = snd (get_strategy_probabilities c STRATEGY_NAMES)
    in map fst policy = STRATEGY_NAMES
       \<and> (\<forall>p \<in> snd ` set policy. 0 \<le> p)
       \<and> sum_list (map snd policy) = 1
       \<and> ((\<forall>s \<in> set STRATEGY_NAMES. dict_get (regret_sum c) s 0 \<le> 0)
            \<longrightarrow> policy = map (\<lambda>s. (s, 1 / 6)) STRATEGY_NAMES))
   \<and> (reachable_cfr c \<and> iteration_history c \<noteq> [] \<longrightarrow>
        map fst (get_average_strategy c) = STRATEGY_NAMES
        \<and> (\<forall>p \<in> snd ` set (get_average_strategy c). 0 \<le> p)
        \<and> sum_list (map snd (get_average_strategy c)) = 1)
   \<and> (reachable_cfr c \<and> iteration_history c = [] \<longrightarrow> get_average_strategy c = [])"
proof (intro conjI impI)
  let ?policy = "snd (get_strategy_probabilities c STRATEGY_NAMES)"
  have ne: "STRATEGY_NAMES \<noteq> []" by (simp add: STRATEGY_NAMES_eq)
  have u: "?policy = map (\<lambda>s. (s, 1 / 6)) STRATEGY_NAMES"
    if "\<forall>s \<in> set STRATEGY_NAMES. dict_get (regret_sum c) s 0 \<le> 0"
    using gsp_uniform [OF distinct_STRATEGY_NAMES that] by (simp add: length_STRATEGY_NAMES)
  show "let policy = ?policy
    in map fst policy = STRATEGY_NAMES
       \<and> (\<forall>p \<in> snd ` set policy. 0 \<le> p)
       \<and> sum_list (map snd policy) = 1
       \<and> ((\<forall>s \<in> set STRATEGY_NAMES. dict_get (regret_sum c) s 0 \<le> 0)
            \<longrightarrow> policy = map (\<lambda>s. (s, 1 / 6)) STRATEGY_NAMES)"
    unfolding Let_def
    using gsp_keys [OF distinct_STRATEGY_NAMES, of c]
      gsp_nonneg [OF distinct_STRATEGY_NAMES, of _ c]
      gsp_sum_one [OF distinct_STRATEGY_NAMES ne, of c] u
    by blast
next
  assume "reachable_cfr c \<and> iteration_history c \<noteq> []"
  then have "sum_inv c" "iteration_history c \<noteq> []" by (simp_all add: reachable_sum_inv)
  from average_of_inv(1) [OF this]
  show "map fst (get_average_strategy c) = STRATEGY_NAMES" .
next
  assume "reachable_cfr c \<and> iteration_history c \<noteq> []"
  then have "sum_inv c" "iteration_history c \<noteq> []" by (simp_all add: reachable_sum_inv)
  from average_of_inv(2) [OF this]
  show "\<forall>p \<in> snd ` set (get_average_strategy c). 0 \<le> p" .
next
  assume "reachable_cfr c \<and> iteration_history c \<noteq> []"
  then have "sum_inv c" "iteration_history c \<noteq> []" by (simp_all add: reachable_sum_inv)
  from average_of_inv(3) [OF this]
  show "sum_list (map snd (get_average_strategy c)) = 1" .
next
  assume "reachable_cfr c \<and> iteration_history c = []"
  then have "sum_inv c" "iteration_history c = []" by (simp_all add: reachable_sum_inv)
  then show "get_average_strategy c = []"
    by (simp add: sum_inv_def get_average_strategy_def)
qed

text \<open>A learner that has recorded one round, with the policy of a fresh learner.\<close>

definition one_round_cfr :: "strategy CFRRegretMinimizer" where
  "one_round_cfr =
     record_iteration cfr_init (map (\<lambda>s. (s, 0)) STRATEGY_NAMES) PARALLEL_CRITICAL
       (snd (get_strategy_probabilities cfr_init STRATEGY_NAMES)) 0"

lemma one_round_cfr_reachable: "reachable_cfr one_round_cfr"
  unfolding one_round_cfr_def
  by (rule reach_record [OF reach_init]) (simp add: comp_def)

lemma one_round_cfr_history: "iteration_history one_round_cfr \<noteq> []"
  by (simp add: one_round_cfr_def record_iteration_def Let_def)

lemma cfr_init_no_regret: "\<forall>s \<in> set STRATEGY_NAMES. dict_get (regret_sum (cfr_init :: strategy CFRRegretMinimizer)) s 0 \<le> 0"
  by (simp add: cfr_init_def dict_get_def)

lemma cfr_init_history: "iteration_history (cfr_init :: strategy CFRRegretMinimizer) = []"
  by (simp add: cfr_init_def)

theorem policies_are_distributions_witness:
  "reachable_cfr one_round_cfr \<and> iteration_history one_round_cfr \<noteq> []
   \<and> sum_list (map snd (get_average_strategy one_round_cfr)) = 1
   \<and> map fst (get_average_strategy one_round_cfr) = STRATEGY_NAMES
   \<and> sum_list (map snd (snd (get_strategy_probabilities one_round_cfr STRATEGY_NAMES))) = 1
   \<and> reachable_cfr cfr_init \<and> iteration_history (cfr_init :: strategy CFRRegretMinimizer) = []
   \<and> dict_get (regret_sum (cfr_init :: strategy CFRRegretMinimizer)) COOPERATIVE_ALL 0 \<le> 0
   \<and> snd (get_strategy_probabilities cfr_init STRATEGY_NAMES) = map (\<lambda>s. (s, 1 / 6)) STRATEGY_NAMES
   \<and> get_average_strategy (cfr_init :: strategy CFRRegretMinimizer) = []"
  using policies_are_distributions [of one_round_cfr] one_round_cfr_reachable one_round_cfr_history
    policies_are_distributions [of cfr_init] reach_init cfr_init_no_regret cfr_init_history
  by (simp add: Let_def set_STRATEGY_NAMES)

text \<open>
  Claim C2 as stated fails for the average policy of a fresh learner: the returned dict
  is empty, so its probabilities sum to 0.
\<close>

theorem average_policy_counterexample:
  "reachable_cfr cfr_init
   \<and> sum_list (map snd (get_average_strategy (cfr_init :: strategy CFRRegretMinimizer))) \<noteq> 1"
  using reach_init by (simp add: get_average_strategy_def cfr_init_def)

section \<open>Padding of the generated sequences (claim C6)\<close>





section \<open>Facts about the plan compiler\<close>

lemma treat_targets_append [simp]:
  "treat_targets i (xs @ ys) = treat_targets i xs @ treat_targets i ys"
  by (simp add: treat_targets_def)

lemma treat_targets_Nil [simp]: "treat_targets i [] = []"
  by (simp add: treat_targets_def)

lemma treat_targets_Cons:
  "treat_targets i (c # cs) =
     (if action c = TREAT \<and> patient_id c = i then [target c] else []) @ treat_targets i cs"
  by (simp add: treat_targets_def)

lemma nurse_covered_append [simp]:
  "nurse_covered (xs @ ys) = nurse_covered xs \<union> nurse_covered ys"
  by (auto simp: nurse_covered_def)

lemma nurse_covered_Nil [simp]: "nurse_covered [] = {}"
  by (simp add: nurse_covered_def)

lemma nurse_covered_Cons:
  "nurse_covered (c # cs) =
     (if (action c = ESCORT \<or> action c = TREAT) \<and> patient_id c > 0 then {patient_id c} else {})
       \<union> nurse_covered cs"
  by (auto simp: nurse_covered_def)

lemmas command_simps =
  treat_targets_Cons nurse_covered_Cons escort_command_def treat_command_def leave_command_def

lemma room_body_nurse_targets:
  "treat_targets i (nurse_commands (room_body s p room st)) =
     treat_targets i (nurse_commands st) @ (if i = pid p \<and> nurse_treats s p room then [room] else [])"
  by (cases s) (auto simp: room_body_def Let_def nurse_pair_def doctor_pair_def nurse_treats_def command_simps)

lemma room_body_doctor_targets:
  "treat_targets i (doctor_commands (room_body s p room st)) =
     treat_targets i (doctor_commands st) @ (if i = pid p \<and> doctor_treats s p room then [room] else [])"
  by (cases s) (auto simp: room_body_def Let_def nurse_pair_def doctor_pair_def doctor_treats_def command_simps)

lemma room_body_nurse_covered:
  "nurse_covered (nurse_commands (room_body s p room st)) =
     nurse_covered (nurse_commands st) \<union> (if pid p > 0 \<and> nurse_treats s p room then {pid p} else {})"
  by (cases s) (auto simp: room_body_def Let_def nurse_pair_def doctor_pair_def nurse_treats_def command_simps)

lemma fold_room_body_nurse_targets:
  "treat_targets i (nurse_commands (fold (room_body s p) rooms st)) =
     treat_targets i (nurse_commands st) @ (if i = pid p then filter (nurse_treats s p) rooms else [])"
  by (induction rooms arbitrary: st) (simp_all add: room_body_nurse_targets)

lemma fold_room_body_doctor_targets:
  "treat_targets i (doctor_commands (fold (room_body s p) rooms st)) =
     treat_targets i (doctor_commands st) @ (if i = pid p then filter (doctor_treats s p) rooms else [])"
  by (induction rooms arbitrary: st) (simp_all add: room_body_doctor_targets)

lemma fold_room_body_nurse_covered:
  "nurse_covered (nurse_commands (fold (room_body s p) rooms st)) =
     nurse_covered (nurse_commands st)
       \<union> (if pid p > 0 \<and> (\<exists>room \<in> set rooms. nurse_treats s p room) then {pid p} else {})"
  by (induction rooms arbitrary: st) (auto simp: room_body_nurse_covered)

lemma patient_body_nurse:
  "nurse_commands (patient_body s p st) =
     nurse_commands (fold (room_body s p) (pathway p) (st\<lparr>has_doctor_commands := False\<rparr>))"
  by (simp add: patient_body_def Let_def)

lemma patient_body_doctor_targets_aux:
  "treat_targets i (doctor_commands (patient_body s p st)) =
     treat_targets i (doctor_commands (fold (room_body s p) (pathway p) (st\<lparr>has_doctor_commands := False\<rparr>)))"
  by (simp add: patient_body_def Let_def command_simps)

lemma patient_body_nurse_targets:
  "treat_targets i (nurse_commands (patient_body s p st)) =
     treat_targets i (nurse_commands st)
       @ (if i = pid p then filter (nurse_treats s p) (pathway p) else [])"
  unfolding patient_body_nurse fold_room_body_nurse_targets by simp

lemma patient_body_doctor_targets:
  "treat_targets i (doctor_commands (patient_body s p st)) =
     treat_targets i (doctor_commands st)
       @ (if i = pid p then filter (doctor_treats s p) (pathway p) else [])"
  unfolding patient_body_doctor_targets_aux fold_room_body_doctor_targets by simp

lemma patient_body_nurse_covered:
  "nurse_covered (nurse_commands (patient_body s p st)) =
     nurse_covered (nurse_commands st)
       \<union> (if pid p > 0 \<and> (\<exists>room \<in> set (pathway p). nurse_treats s p room) then {pid p} else {})"
  unfolding patient_body_nurse fold_room_body_nurse_covered by simp

lemma fold_patient_body_nurse_targets:
  "treat_targets i (nurse_commands (fold (patient_body s) ps st)) =
     treat_targets i (nurse_commands st)
       @ concat (map (\<lambda>p. if i = pid p then filter (nurse_treats s p) (pathway p) else []) ps)"
  by (induction ps arbitrary: st) (simp_all add: patient_body_nurse_targets)

lemma fold_patient_body_doctor_targets:
  "treat_targets i (doctor_commands (fold (patient_body s) ps st)) =
     treat_targets i (doctor_commands st)
       @ concat (map (\<lambda>p. if i = pid p then filter (doctor_treats s p) (pathway p) else []) ps)"
  by (induction ps arbitrary: st) (simp_all add: patient_body_doctor_targets)

lemma fold_patient_body_nurse_covered:
  "nurse_covered (nurse_commands (fold (patient_body s) ps st)) =
     nurse_covered (nurse_commands st)
       \<union> {pid p | p. p \<in> set ps \<and> pid p > 0 \<and> (\<exists>room \<in> set (pathway p). nurse_treats s p room)}"
  by (induction ps arbitrary: st) (auto simp: patient_body_nurse_covered)

lemma subseq_concat_member: "p \<in> set ps \<Longrightarrow> subseq (g p) (concat (map g ps))"
proof (induction ps)
  case Nil
  then show ?case by simp
next
  case (Cons q ps)
  show ?case
  proof (cases "p = q")
    case True
    then show ?thesis by (simp add: subseq_rev_drop_many)
  next
    case False
    with Cons have "subseq (g p) (concat (map g ps))" by simp
    then show ?thesis by (simp add: list_emb_append2)
  qed
qed

lemma set_compile_order [simp]: "set (compile_order ps s) = set ps"
  by (simp add: compile_order_def sorted_by_urgency_def)

lemma primary_nurse_targets:
  "treat_targets i (fst (primary_commands ps s)) =
     concat (map (\<lambda>p. if i = pid p then filter (nurse_treats s p) (pathway p) else []) (compile_order ps s))"
  by (simp add: primary_commands_def Let_def fold_patient_body_nurse_targets)

lemma primary_doctor_targets:
  "treat_targets i (snd (primary_commands ps s)) =
     concat (map (\<lambda>p. if i = pid p then filter (doctor_treats s p) (pathway p) else []) (compile_order ps s))"
  by (simp add: primary_commands_def Let_def fold_patient_body_doctor_targets)

lemma primary_nurse_covered:
  "nurse_covered (fst (primary_commands ps s)) =
     {pid p | p. p \<in> set ps \<and> pid p > 0 \<and> (\<exists>room \<in> set (pathway p). nurse_treats s p room)}"
  by (simp add: primary_commands_def Let_def fold_patient_body_nurse_covered)

lemma nurse_or_doctor_treats: "\<not> nurse_treats s p room \<Longrightarrow> doctor_treats s p room"
  by (auto simp: nurse_treats_def doctor_treats_def split: if_splits)

lemma primary_covers:
  assumes "p \<in> set ps"
  shows "covers p (fst (primary_commands ps s)) (snd (primary_commands ps s))"
proof -
  let ?ns = "filter (nurse_treats s p) (pathway p)"
  let ?ds = "filter (\<lambda>r. \<not> nurse_treats s p r) (pathway p)"
  let ?gn = "\<lambda>q. if pid p = pid q then filter (nurse_treats s q) (pathway q) else []"
  let ?gd = "\<lambda>q. if pid p = pid q then filter (doctor_treats s q) (pathway q) else []"
  from assms have mem: "p \<in> set (compile_order ps s)" by simp
  have "subseq (?gn p) (concat (map ?gn (compile_order ps s)))"
    by (rule subseq_concat_member [OF mem])
  then have n: "subseq ?ns (treat_targets (pid p) (fst (primary_commands ps s)))"
    by (simp add: primary_nurse_targets)
  have "?ds = filter (\<lambda>r. \<not> nurse_treats s p r) (filter (doctor_treats s p) (pathway p))"
    by (auto simp: nurse_or_doctor_treats intro: filter_cong)
  then have "subseq ?ds (filter (doctor_treats s p) (pathway p))"
    by (metis subseq_filter_left)
  moreover have "subseq (?gd p) (concat (map ?gd (compile_order ps s)))"
    by (rule subseq_concat_member [OF mem])
  ultimately have d: "subseq ?ds (treat_targets (pid p) (snd (primary_commands ps s)))"
    by (simp add: primary_doctor_targets)
  have "pathway p \<in> shuffles ?ns ?ds" by (rule partition_in_shuffles)
  with n d show ?thesis unfolding covers_def by blast
qed

lemma covers_append:
  "covers p ncs dcs \<Longrightarrow> covers p (ncs @ ncs') (dcs @ dcs')"
  unfolding covers_def by (auto intro: subseq_rev_drop_many)

lemma generate_unity_commands_extends:
  "\<exists>ncs' dcs'. generate_unity_commands ps s =
      (fst (primary_commands ps s) @ ncs', snd (primary_commands ps s) @ dcs')"
  by (auto simp: generate_unity_commands_def Let_def split_def)

section \<open>Coverage and the repair pass (claims C4 and C5)\<close>

text \<open>
  Claim C4. For every roster and every catalog strategy, every patient of the roster is
  covered by the nurse and doctor command lists: by the lists of the primary generation
  (the repair pass not applied), and by the lists that the whole function returns.
\<close>

theorem compiled_commands_cover_roster:
  "\<forall>p \<in> set ps.
     covers p (fst (primary_commands ps s)) (snd (primary_commands ps s))
     \<and> covers p (fst (generate_unity_commands ps s)) (snd (generate_unity_commands ps s))"
proof
  fix p assume p: "p \<in> set ps"
  have prim: "covers p (fst (primary_commands ps s)) (snd (primary_commands ps s))"
    by (rule primary_covers [OF p])
  obtain ncs' dcs' where "generate_unity_commands ps s =
      (fst (primary_commands ps s) @ ncs', snd (primary_commands ps s) @ dcs')"
    using generate_unity_commands_extends by blast
  with covers_append [OF prim, of ncs' dcs'] prim
  show "covers p (fst (primary_commands ps s)) (snd (primary_commands ps s))
     \<and> covers p (fst (generate_unity_commands ps s)) (snd (generate_unity_commands ps s))"
    by simp
qed

lemma strategy_info_of_simps:
  "priority (strategy_info_of PARALLEL_CRITICAL) = critical_first"
  "priority (strategy_info_of SEQUENTIAL_SEVERITY) = severity"
  "priority (strategy_info_of DOCTOR_CRITICAL_NURSE_OTHERS) = split_by_type"
  "priority (strategy_info_of COOPERATIVE_ALL) = fifo"
  "priority (strategy_info_of NEAREST_FIRST) = distance"
  "priority (strategy_info_of NURSE_TRIAGE_DOCTOR_TREAT) = role_based"
  by (simp_all add: strategy_info_of_def STRATEGIES_def)

lemma primary_example:
  "primary_commands [new_patient 1 Critical] NURSE_TRIAGE_DOCTOR_TREAT =
     ([escort_command ''TRIAGE'' 1 ''WAITING'', treat_command ''TRIAGE'' 1, leave_command ''TRIAGE'' 1],
      [escort_command ''TB'' 1 ''TRIAGE'', treat_command ''TB'' 1,
       escort_command ''ICU'' 1 ''TB'', treat_command ''ICU'' 1, leave_command ''ICU'' 1])"
  by (simp add: primary_commands_def compile_order_def strategy_info_of_simps dict_of_def
      patient_body_def room_body_def nurse_pair_def doctor_pair_def new_patient_def Let_def dict_get_def)

theorem compiled_commands_cover_roster_witness:
  "new_patient 1 Critical \<in> set [new_patient 1 Critical]
   \<and> covers (new_patient 1 Critical)
        [escort_command ''TRIAGE'' 1 ''WAITING'', treat_command ''TRIAGE'' 1, leave_command ''TRIAGE'' 1]
        [escort_command ''TB'' 1 ''TRIAGE'', treat_command ''TB'' 1,
         escort_command ''ICU'' 1 ''TB'', treat_command ''ICU'' 1, leave_command ''ICU'' 1]"
  using compiled_commands_cover_roster [of "[new_patient 1 Critical]" NURSE_TRIAGE_DOCTOR_TREAT]
  by (simp add: primary_example)

lemma find_by_pid:
  "distinct (map pid ps) \<Longrightarrow> p \<in> set ps \<Longrightarrow> find (\<lambda>q. pid q = pid p) ps = Some p"
  by (induction ps) (auto simp: image_iff)

lemma fallback_for_member:
  assumes "distinct (map pid ps)" and "p \<in> set ps"
  shows "fallback_for ps (pid p) =
     concat (map (\<lambda>room. [escort_command room (pid p) ''WAITING'', treat_command room (pid p)])
       (pathway p))"
  by (simp add: fallback_for_def find_by_pid [OF assms])

lemma compile_order_split [simp]: "compile_order ps DOCTOR_CRITICAL_NURSE_OTHERS = ps"
  by (simp add: compile_order_def strategy_info_of_simps)

lemma generate_without_repair:
  assumes "missing_patients ps s = {}"
  shows "generate_unity_commands ps s =
     (let (ncs, dcs) = primary_commands ps s
      in (if ncs = [] then [move_command] else ncs, if dcs = [] then [move_command] else dcs))"
  using assms by (simp add: generate_unity_commands_def Let_def split_def)

lemma generate_with_repair:
  assumes "finite (missing_patients ps s)"
  shows "\<exists>ids. set ids = missing_patients ps s \<and> distinct ids
     \<and> generate_unity_commands ps s =
         (let (ncs, dcs) = primary_commands ps s;
              ncs1 = ncs @ concat (map (fallback_for (compile_order ps s)) ids)
          in (if ncs1 = [] then [move_command] else ncs1,
              if dcs = [] then [move_command] else dcs))"
proof -
  let ?ids = "sorted_list_of_set (missing_patients ps s)"
  have "set ?ids = missing_patients ps s" "distinct ?ids" using assms by simp_all
  moreover have "generate_unity_commands ps s =
         (let (ncs, dcs) = primary_commands ps s;
              ncs1 = ncs @ concat (map (fallback_for (compile_order ps s)) ?ids)
          in (if ncs1 = [] then [move_command] else ncs1,
              if dcs = [] then [move_command] else dcs))"
    by (cases "missing_patients ps s = {}")
       (simp_all add: generate_unity_commands_def Let_def split_def)
  ultimately show ?thesis by blast
qed

text \<open>
  Claim C5, as amended. For a roster whose patients have distinct positive ids and a
  pathway that contains TRIAGE (as every spawned patient has), the set of patients that
  the verification computes as missed is empty for every catalog strategy but
  DOCTOR_CRITICAL_NURSE_OTHERS, and then no fallback command is synthesized: the function
  returns the lists of the primary generation (a list that is empty replaced by the one
  MOVE command). For DOCTOR_CRITICAL_NURSE_OTHERS the missed set is the set of the
  Critical patients, and the nurse's list is the primary list followed by the fallback
  commands of the missed ids, each id once, in the order in which the set is visited,
  whatever that order is; the doctor's list is the primary one. The fallback commands of
  a patient of the roster are an ESCORT from WAITING and a TREAT for every room of its
  pathway.
\<close>

theorem repair_pass_missing:
  assumes "\<forall>p \<in> set ps. pid p > 0 \<and> ''TRIAGE'' \<in> set (pathway p)"
    and "distinct (map pid ps)"
  shows "missing_patients ps s =
       (if s = DOCTOR_CRITICAL_NURSE_OTHERS
        then set (map pid (filter (\<lambda>p. ptype p = Critical) ps)) else {})
     \<and> (s \<noteq> DOCTOR_CRITICAL_NURSE_OTHERS \<longrightarrow>
          generate_unity_commands ps s =
            (let (ncs, dcs) = primary_commands ps s
             in (if ncs = [] then [move_command] else ncs,
                 if dcs = [] then [move_command] else dcs)))
     \<and> (s = DOCTOR_CRITICAL_NURSE_OTHERS \<longrightarrow>
          (\<exists>ids. set ids = set (map pid (filter (\<lambda>p. ptype p = Critical) ps)) \<and> distinct ids
             \<and> generate_unity_commands ps s =
                 (let (ncs, dcs) = primary_commands ps s;
                      ncs1 = ncs @ concat (map (fallback_for ps) ids)
                  in (if ncs1 = [] then [move_command] else ncs1,
                      if dcs = [] then [move_command] else dcs))))
     \<and> (\<forall>p \<in> set ps. fallback_for ps (pid p) =
          concat (map (\<lambda>room. [escort_command room (pid p) ''WAITING'', treat_command room (pid p)])
            (pathway p)))"
proof -
  have missing: "missing_patients ps s =
       (if s = DOCTOR_CRITICAL_NURSE_OTHERS
        then set (map pid (filter (\<lambda>p. ptype p = Critical) ps)) else {})" for s
  proof -
    have treats: "(\<exists>room \<in> set (pathway p). nurse_treats s p room)
        \<longleftrightarrow> (s = DOCTOR_CRITICAL_NURSE_OTHERS \<longrightarrow> ptype p \<noteq> Critical)"
      if "p \<in> set ps" for p
      using assms(1) that by (auto simp: nurse_treats_def)
    have cov: "nurse_covered (fst (primary_commands ps s)) =
        pid ` {p \<in> set ps. s = DOCTOR_CRITICAL_NURSE_OTHERS \<longrightarrow> ptype p \<noteq> Critical}"
      unfolding primary_nurse_covered using assms(1) treats by auto
    have inj: "inj_on pid (set ps)"
      using assms(2) by (simp add: distinct_map)
    show ?thesis
    proof (cases "s = DOCTOR_CRITICAL_NURSE_OTHERS")
      case True
      have "pid ` set ps - pid ` {p \<in> set ps. ptype p \<noteq> Critical}
          = pid ` (set ps - {p \<in> set ps. ptype p \<noteq> Critical})"
        by (rule inj_on_image_set_diff [OF inj, symmetric]) auto
      also have "set ps - {p \<in> set ps. ptype p \<noteq> Critical} = {p \<in> set ps. ptype p = Critical}"
        by auto
      finally have "pid ` set ps - pid ` {p \<in> set ps. ptype p \<noteq> Critical}
          = set (map pid (filter (\<lambda>p. ptype p = Critical) ps))"
        by simp
      then show ?thesis unfolding missing_patients_def cov using True by simp
    next
      case False
      then show ?thesis unfolding missing_patients_def cov by simp
    qed
  qed
  have none: "generate_unity_commands ps s =
            (let (ncs, dcs) = primary_commands ps s
             in (if ncs = [] then [move_command] else ncs,
                 if dcs = [] then [move_command] else dcs))"
    if "s \<noteq> DOCTOR_CRITICAL_NURSE_OTHERS"
    using that by (intro generate_without_repair) (simp add: missing)
  have some: "\<exists>ids. set ids = set (map pid (filter (\<lambda>p. ptype p = Critical) ps)) \<and> distinct ids
             \<and> generate_unity_commands ps s =
                 (let (ncs, dcs) = primary_commands ps s;
                      ncs1 = ncs @ concat (map (fallback_for ps) ids)
                  in (if ncs1 = [] then [move_command] else ncs1,
                      if dcs = [] then [move_command] else dcs))"
    if "s = DOCTOR_CRITICAL_NURSE_OTHERS"
  proof -
    have "finite (missing_patients ps s)" by (simp add: missing that)
    from generate_with_repair [OF this] show ?thesis by (simp add: missing that)
  qed
  have fb: "\<forall>p \<in> set ps. fallback_for ps (pid p) =
          concat (map (\<lambda>room. [escort_command room (pid p) ''WAITING'', treat_command room (pid p)])
            (pathway p))"
    using fallback_for_member [OF assms(2)] by blast
  from missing [of s] none some fb show ?thesis by blast
qed

lemma primary_example2:
  "primary_commands [new_patient 1 Critical] DOCTOR_CRITICAL_NURSE_OTHERS =
     ([],
      [escort_command ''TRIAGE'' 1 ''WAITING'', treat_command ''TRIAGE'' 1,
       escort_command ''TB'' 1 ''TRIAGE'', treat_command ''TB'' 1,
       escort_command ''ICU'' 1 ''TB'', treat_command ''ICU'' 1, leave_command ''ICU'' 1])"
  by (simp add: primary_commands_def compile_order_def strategy_info_of_simps dict_of_def
      patient_body_def room_body_def nurse_pair_def doctor_pair_def new_patient_def Let_def dict_get_def)

text \<open>
  Claim C5 as stated fails: for one spawned Critical patient under
  DOCTOR_CRITICAL_NURSE_OTHERS the primary generation gives the nurse no command, the
  verification computes the patient as missed, and the nurse's list is the fallback.
\<close>

theorem repair_pass_fires_counterexample:
  "missing_patients [new_patient 1 Critical] DOCTOR_CRITICAL_NURSE_OTHERS = {1}
   \<and> fst (generate_unity_commands [new_patient 1 Critical] DOCTOR_CRITICAL_NURSE_OTHERS) =
       [escort_command ''TRIAGE'' 1 ''WAITING'', treat_command ''TRIAGE'' 1,
        escort_command ''TB'' 1 ''WAITING'', treat_command ''TB'' 1,
        escort_command ''ICU'' 1 ''WAITING'', treat_command ''ICU'' 1]"
proof -
  have m: "missing_patients [new_patient 1 Critical] DOCTOR_CRITICAL_NURSE_OTHERS = {1}"
    by (simp add: missing_patients_def primary_example2 compile_order_def strategy_info_of_simps)
       (simp add: new_patient_def)
  show ?thesis
    by (simp add: m generate_unity_commands_def primary_example2 compile_order_def
        strategy_info_of_simps fallback_for_def Let_def)
       (simp add: new_patient_def)
qed

lemma singleton_list: "set ids = {x} \<Longrightarrow> distinct ids \<Longrightarrow> ids = [x]"
  by (cases ids) (auto simp: subset_singleton_iff)

text \<open>A Critical and a Minor patient: only the Critical one is missed, and only under
  DOCTOR_CRITICAL_NURSE_OTHERS.\<close>

definition mixed_roster :: "Patient list" where
  "mixed_roster = [new_patient 1 Critical, new_patient 2 Minor]"

theorem repair_pass_missing_witness:
  "pid (new_patient 1 Critical) > 0 \<and> ''TRIAGE'' \<in> set (pathway (new_patient 1 Critical))
   \<and> pid (new_patient 2 Minor) > 0 \<and> ''TRIAGE'' \<in> set (pathway (new_patient 2 Minor))
   \<and> distinct (map pid mixed_roster)
   \<and> missing_patients mixed_roster DOCTOR_CRITICAL_NURSE_OTHERS = {1}
   \<and> missing_patients mixed_roster PARALLEL_CRITICAL = {}
   \<and> generate_unity_commands mixed_roster PARALLEL_CRITICAL =
        (let (ncs, dcs) = primary_commands mixed_roster PARALLEL_CRITICAL
         in (if ncs = [] then [move_command] else ncs, if dcs = [] then [move_command] else dcs))
   \<and> generate_unity_commands mixed_roster DOCTOR_CRITICAL_NURSE_OTHERS =
        (let (ncs, dcs) = primary_commands mixed_roster DOCTOR_CRITICAL_NURSE_OTHERS;
             ncs1 = ncs @ fallback_for mixed_roster 1
         in (if ncs1 = [] then [move_command] else ncs1, if dcs = [] then [move_command] else dcs))
   \<and> fallback_for mixed_roster 1 =
        [escort_command ''TRIAGE'' 1 ''WAITING'', treat_command ''TRIAGE'' 1,
         escort_command ''TB'' 1 ''WAITING'', treat_command ''TB'' 1,
         escort_command ''ICU'' 1 ''WAITING'', treat_command ''ICU'' 1]"
proof -
  have h1: "\<forall>p \<in> set mixed_roster. pid p > 0 \<and> ''TRIAGE'' \<in> set (pathway p)"
    by (simp add: mixed_roster_def new_patient_def)
  have h2: "distinct (map pid mixed_roster)" by (simp add: mixed_roster_def new_patient_def)
  have crit: "set (map pid (filter (\<lambda>p. ptype p = Critical) mixed_roster)) = {1}"
    by (simp add: mixed_roster_def new_patient_def)
  note d = repair_pass_missing [OF h1 h2, of DOCTOR_CRITICAL_NURSE_OTHERS, unfolded crit]
  note c = repair_pass_missing [OF h1 h2, of PARALLEL_CRITICAL]
  from d have m1: "missing_patients mixed_roster DOCTOR_CRITICAL_NURSE_OTHERS = {1}"
    by simp
  from c have m2: "missing_patients mixed_roster PARALLEL_CRITICAL = {}" by simp
  from c have g2: "generate_unity_commands mixed_roster PARALLEL_CRITICAL =
        (let (ncs, dcs) = primary_commands mixed_roster PARALLEL_CRITICAL
         in (if ncs = [] then [move_command] else ncs, if dcs = [] then [move_command] else dcs))"
    by simp
  from d obtain ids where ids: "set ids = {1}" "distinct ids"
    and g: "generate_unity_commands mixed_roster DOCTOR_CRITICAL_NURSE_OTHERS =
        (let (ncs, dcs) = primary_commands mixed_roster DOCTOR_CRITICAL_NURSE_OTHERS;
             ncs1 = ncs @ concat (map (fallback_for mixed_roster) ids)
         in (if ncs1 = [] then [move_command] else ncs1, if dcs = [] then [move_command] else dcs))"
    by auto
  from ids have "ids = [1]" by (rule singleton_list)
  with g have g1: "generate_unity_commands mixed_roster DOCTOR_CRITICAL_NURSE_OTHERS =
        (let (ncs, dcs) = primary_commands mixed_roster DOCTOR_CRITICAL_NURSE_OTHERS;
             ncs1 = ncs @ fallback_for mixed_roster 1
         in (if ncs1 = [] then [move_command] else ncs1, if dcs = [] then [move_command] else dcs))"
    by simp
  from d have "fallback_for mixed_roster (pid (new_patient 1 Critical)) =
      concat (map (\<lambda>room. [escort_command room (pid (new_patient 1 Critical)) ''WAITING'',
                             treat_command room (pid (new_patient 1 Critical))])
        (pathway (new_patient 1 Critical)))"
    by (simp add: mixed_roster_def)
  then have f: "fallback_for mixed_roster 1 =
        [escort_command ''TRIAGE'' 1 ''WAITING'', treat_command ''TRIAGE'' 1,
         escort_command ''TB'' 1 ''WAITING'', treat_command ''TB'' 1,
         escort_command ''ICU'' 1 ''WAITING'', treat_command ''ICU'' 1]"
    by (simp add: new_patient_def)
  from h2 m1 m2 g2 g1 f show ?thesis by (simp add: new_patient_def)
qed

section \<open>The simulation mutates its clone only (claim C7)\<close>

lemma frame_refl: "frame h h"
  by (simp add: frame_def)

lemma upd_state_inv:
  assumes "sim_inv h0 sa h"
    and "set (patients (f (state_objs h sa))) \<subseteq> set (patients (state_objs h sa))"
  shows "sim_inv h0 sa (upd_state h sa f)"
  using assms by (auto simp: sim_inv_def frame_def upd_state_def)

lemma upd_patient_inv:
  assumes "sim_inv h0 sa h" and "patient_next h0 \<le> a"
  shows "sim_inv h0 sa (upd_patient h a f)"
  using assms by (auto simp: sim_inv_def frame_def upd_patient_def)

lemma upd_patient_roster:
  "patients (state_objs (upd_patient h a f) sa) = patients (state_objs h sa)"
  by (simp add: upd_patient_def)

lemma sim_inv_member:
  "sim_inv h0 sa h \<Longrightarrow> a \<in> set (patients (state_objs h sa)) \<Longrightarrow> patient_next h0 \<le> a"
  by (simp add: sim_inv_def)

lemma waiting_loop_inv:
  "sim_inv h0 sa (fst hp) \<Longrightarrow> \<forall>a \<in> set as. patient_next h0 \<le> a \<Longrightarrow>
     sim_inv h0 sa (fst (waiting_loop d as hp))"
proof (induction d as hp rule: waiting_loop.induct)
  case (1 d h penalty)
  then show ?case by simp
next
  case (2 d a as h penalty)
  show ?case
  proof (cases "being_treated_by (patient_objs h a) = []")
    case True
    let ?h1 = "upd_patient h a (\<lambda>p. p\<lparr>waiting_time := waiting_time p + d,
        health := max 0 (health p + WAITING_PENALTY (ptype (patient_objs h a)) * d)\<rparr>)"
    from "2.prems" have "sim_inv h0 sa ?h1" by (intro upd_patient_inv) simp_all
    with "2.IH"(1) [OF True refl] "2.prems" True show ?thesis by (simp add: Let_def)
  next
    case False
    with "2.IH"(2) "2.prems" show ?thesis by simp
  qed
qed

lemma waiting_loop_roster:
  "patients (state_objs (fst (waiting_loop d as hp)) sa) = patients (state_objs (fst hp) sa)"
  by (simp add: waiting_loop_states)

lemma apply_waiting_penalties_inv:
  assumes "sim_inv h0 sa h"
  shows "sim_inv h0 sa (fst (apply_waiting_penalties h sa d))"
proof -
  let ?r = "waiting_loop d (patients (state_objs h sa)) (h, 0)"
  have "sim_inv h0 sa (fst ?r)"
    using assms by (intro waiting_loop_inv) (simp_all add: sim_inv_def)
  then have "sim_inv h0 sa (upd_state (fst ?r) sa (\<lambda>s. s\<lparr>total_penalty := total_penalty s + snd ?r\<rparr>))"
    by (intro upd_state_inv) simp_all
  then show ?thesis by (simp add: apply_waiting_penalties_def split_def Let_def)
qed

lemma set_list_remove: "set (list_remove h p as) \<subseteq> set as"
  by (induction as) auto

lemma dead_loop_inv:
  "sim_inv h0 sa (fst hm) \<Longrightarrow> sim_inv h0 sa (fst (dead_loop sa dead hm))"
proof (induction sa dead hm rule: dead_loop.induct)
  case (1 sa h m)
  then show ?case by simp
next
  case (2 sa a dead h m)
  let ?h1 = "upd_state h sa (\<lambda>s. s\<lparr>total_penalty := total_penalty s - 50,
                              patients := list_remove h (patient_objs h a) (patients s)\<rparr>)"
  from "2.prems" have "sim_inv h0 sa ?h1"
    by (intro upd_state_inv) (simp_all add: set_list_remove)
  with "2.IH" show ?case by simp
qed

lemma remove_dead_inv: "sim_inv h0 sa h \<Longrightarrow> sim_inv h0 sa (fst (remove_dead h sa m))"
  by (simp add: remove_dead_def dead_loop_inv)

lemma completed_loop_inv:
  "sim_inv h0 sa (fst hm) \<Longrightarrow> sim_inv h0 sa (fst (completed_loop sa cs hm))"
proof (induction sa cs hm rule: completed_loop.induct)
  case (1 sa h m)
  then show ?case by simp
next
  case (2 sa a cs h m)
  let ?h1 = "upd_state h sa (\<lambda>s. s\<lparr>patients := list_remove h (patient_objs h a) (patients s)\<rparr>)"
  from "2.prems" have "sim_inv h0 sa ?h1"
    by (intro upd_state_inv) (simp_all add: set_list_remove)
  with "2.IH" show ?case by simp
qed

lemma remove_completed_inv: "sim_inv h0 sa h \<Longrightarrow> sim_inv h0 sa (fst (remove_completed h sa m))"
  by (simp add: remove_completed_def completed_loop_inv)

lemma treat_patient_inv:
  assumes "sim_inv h0 sa h" and "patient_next h0 \<le> pa"
  shows "sim_inv h0 sa (fst (treat_patient h sa pa ag dur coop))"
proof (cases "next_room (patient_objs h pa)")
  case (Raised e)
  with assms show ?thesis by (simp add: treat_patient_def)
next
  case (Returned ro)
  show ?thesis
  proof (cases ro)
    case None
    with Returned assms show ?thesis by (simp add: treat_patient_def)
  next
    case (Some room)
    have step: "sim_inv h0 sa (upd_state (upd_patient (upd_patient h pa f) pa g) sa k)"
      if "\<And>s. patients (k s) = patients s" for f g k
      using assms that by (intro upd_state_inv upd_patient_inv) simp_all
    have step2: "sim_inv h0 sa (upd_state (upd_state (upd_patient (upd_patient h pa f) pa g) sa k) sa k')"
      if "\<And>s. patients (k s) = patients s" "\<And>s. patients (k' s) = patients s" for f g k k'
      using assms that by (intro upd_state_inv upd_patient_inv) simp_all
    show ?thesis
      using Returned Some by (simp add: treat_patient_def Let_def step step2)
  qed
qed

lemma py_index_member: "py_index xs i = Some x \<Longrightarrow> x \<in> set xs"
  by (auto simp: py_index_def Let_def split: if_splits)

lemma treat_at_inv:
  assumes "sim_inv h0 sa h" and "patient_next h0 \<le> pa"
  shows "sim_inv h0 sa (fst (treat_at positions h sa ag pa room m))"
proof -
  define busy where "busy = current_time (state_objs h sa)
      + room_distance positions (if ag = nurse then nurse_pos (state_objs h sa) else doctor_pos (state_objs h sa)) room
          / (if ag = nurse then nurse_speed else doctor_speed)
      + real_of_int (dict_get ROOM_TREATMENT_TIME room 10)"
  define h1 where "h1 = (if ag = nurse
       then upd_state h sa (\<lambda>s. s\<lparr>nurse_busy_until := busy, nurse_pos := room\<rparr>)
       else upd_state h sa (\<lambda>s. s\<lparr>doctor_busy_until := busy, doctor_pos := room\<rparr>))"
  define h2 where "h2 = upd_patient h1 pa (\<lambda>p. p\<lparr>being_treated_by := being_treated_by p @ [ag]\<rparr>)"
  have i1: "sim_inv h0 sa h1"
    unfolding h1_def using assms(1) by (auto intro!: upd_state_inv)
  have i2: "sim_inv h0 sa h2"
    unfolding h2_def using i1 assms(2) by (rule upd_patient_inv)
  obtain h3 r where tp: "treat_patient h2 sa pa ag (real_of_int (dict_get ROOM_TREATMENT_TIME room 10))
      (length (being_treated_by (patient_objs h pa)) > 0) = (h3, r)"
    by (cases "treat_patient h2 sa pa ag (real_of_int (dict_get ROOM_TREATMENT_TIME room 10))
      (length (being_treated_by (patient_objs h pa)) > 0)")
  have "sim_inv h0 sa (fst (h3, r))"
    unfolding tp [symmetric] using i2 assms(2) by (rule treat_patient_inv)
  then have i3: "sim_inv h0 sa h3" by simp
  then have i4: "sim_inv h0 sa (upd_patient h3 pa f)" for f
    using assms(2) by (rule upd_patient_inv)
  show ?thesis
    using tp i3 i4
    unfolding treat_at_def Let_def busy_def [symmetric] h1_def [symmetric] h2_def [symmetric]
    by (cases r) simp_all
qed

lemma execute_agent_action_inv:
  assumes "sim_inv h0 sa h"
  shows "sim_inv h0 sa (fst (execute_agent_action positions h sa ag act m))"
proof (cases act)
  case (TREAT_PATIENT k)
  show ?thesis
  proof (cases "py_index (patients (state_objs h sa)) (k - 1)")
    case None
    with assms show ?thesis
      by (simp add: TREAT_PATIENT execute_agent_action_def Let_def)
  next
    case (Some pa)
    then have "pa \<in> set (patients (state_objs h sa))" by (rule py_index_member)
    with assms have fresh: "patient_next h0 \<le> pa" by (rule sim_inv_member)
    from treat_at_inv [OF assms fresh] assms Some show ?thesis
      by (simp add: TREAT_PATIENT execute_agent_action_def Let_def
          split: outcome.splits option.splits)
  qed
next
  case TREAT_PATIENT_malformed
  with assms show ?thesis by (simp add: execute_agent_action_def)
next
  case WAIT
  have "sim_inv h0 sa (upd_state h sa
          (\<lambda>s. if ag = nurse then s\<lparr>nurse_busy_until := current_time s + 1\<rparr>
                else s\<lparr>doctor_busy_until := current_time s + 1\<rparr>))"
    using assms by (intro upd_state_inv) simp_all
  with WAIT show ?thesis by (simp add: execute_agent_action_def)
next
  case other_action
  with assms show ?thesis by (simp add: execute_agent_action_def)
qed

lemma agent_turn_inv:
  assumes "sim_inv h0 sa h"
  shows "sim_inv h0 sa (fst (agent_turn positions actions ag h sa idx m))"
  using assms execute_agent_action_inv [OF assms, of positions ag "actions ! idx" m]
  by (auto simp: agent_turn_def Let_def split: prod.splits outcome.splits)

lemma tick_inv:
  assumes "sim_inv h0 sa h"
  shows "sim_inv h0 sa (fst (tick positions nurse_actions doctor_actions h sa ni di m))"
proof -
  obtain h1 penalty where awp: "apply_waiting_penalties h sa 1 = (h1, penalty)"
    by (cases "apply_waiting_penalties h sa 1")
  let ?m1 = "m\<lparr>metrics_total_penalty := metrics_total_penalty m + \<bar>penalty\<bar>\<rparr>"
  obtain h2 m2 where rd: "remove_dead h1 sa ?m1 = (h2, m2)"
    by (cases "remove_dead h1 sa ?m1")
  obtain h3 o3 where nt: "agent_turn positions nurse_actions nurse h2 sa ni m2 = (h3, o3)"
    by (cases "agent_turn positions nurse_actions nurse h2 sa ni m2")
  have i1: "sim_inv h0 sa h1"
    using apply_waiting_penalties_inv [OF assms, of 1] awp by simp
  have i2: "sim_inv h0 sa h2"
    using remove_dead_inv [OF i1, of ?m1] rd by simp
  have i3: "sim_inv h0 sa h3"
    using agent_turn_inv [OF i2, of positions nurse_actions nurse ni m2] nt by simp
  show ?thesis
  proof (cases o3)
    case (Raised e)
    with awp rd nt i3 show ?thesis by (simp add: tick_def Let_def)
  next
    case (Returned r3)
    obtain ni' m3 where r3: "r3 = (ni', m3)" by (cases r3)
    obtain h4 o4 where dt: "agent_turn positions doctor_actions doctor h3 sa di m3 = (h4, o4)"
      by (cases "agent_turn positions doctor_actions doctor h3 sa di m3")
    have i4: "sim_inv h0 sa h4"
      using agent_turn_inv [OF i3, of positions doctor_actions doctor di m3] dt by simp
    show ?thesis
    proof (cases o4)
      case (Raised e)
      with awp rd nt Returned r3 dt i4 show ?thesis by (simp add: tick_def Let_def)
    next
      case r4: (Returned r4)
      obtain di' m4 where r4': "r4 = (di', m4)" by (cases r4)
      obtain h5 m5 where rc: "remove_completed h4 sa m4 = (h5, m5)"
        by (cases "remove_completed h4 sa m4")
      have i5: "sim_inv h0 sa h5"
        using remove_completed_inv [OF i4, of m4] rc by simp
      have "sim_inv h0 sa (upd_state h5 sa (\<lambda>s. s\<lparr>current_time := current_time s + 1\<rparr>))"
        using i5 by (rule upd_state_inv) simp
      with awp rd nt Returned r3 dt r4 r4' rc show ?thesis by (simp add: tick_def Let_def)
    qed
  qed
qed

lemma sim_loop_inv:
  "sim_inv h0 sa h \<Longrightarrow>
     sim_inv h0 sa (fst (sim_loop positions T nurse_actions doctor_actions h sa ni di m))"
proof (induction positions T nurse_actions doctor_actions h sa ni di m rule: sim_loop.induct)
  case (1 positions T nurse_actions doctor_actions h sa ni di m)
  show ?case
  proof (cases "current_time (state_objs h sa) < T \<and> patients (state_objs h sa) \<noteq> []")
    case False
    with "1.prems" show ?thesis by (subst sim_loop.simps) auto
  next
    case True
    obtain h' r where t: "tick positions nurse_actions doctor_actions h sa ni di m = (h', r)"
      by (cases "tick positions nurse_actions doctor_actions h sa ni di m")
    have i: "sim_inv h0 sa h'"
      using tick_inv [OF "1.prems", of positions nurse_actions doctor_actions ni di m] t by simp
    show ?thesis
    proof (cases r)
      case (Raised e)
      with True t i show ?thesis by (subst sim_loop.simps) simp
    next
      case (Returned x)
      obtain ni' y where x: "(ni', y) = x" by (cases x) auto
      obtain di' m' where y: "(di', m') = y" by (cases y) auto
      from "1.IH" [OF True t [symmetric] Returned x y i]
      have "sim_inv h0 sa (fst (sim_loop positions T nurse_actions doctor_actions h' sa ni' di' m'))" .
      with True t Returned x [symmetric] y [symmetric] show ?thesis
        by (subst sim_loop.simps) simp
    qed
  qed
qed

lemma clone_patients_spec:
  "clone_patients h as = (h2, as') \<Longrightarrow>
     patient_next h \<le> patient_next h2
     \<and> (\<forall>a < patient_next h. patient_objs h2 a = patient_objs h a)
     \<and> state_objs h2 = state_objs h \<and> state_next h2 = state_next h
     \<and> (\<forall>a \<in> set as'. patient_next h \<le> a)"
proof (induction as arbitrary: h h2 as')
  case Nil
  then show ?case by simp
next
  case (Cons a as)
  obtain h1 a' where c1: "clone_patient h a = (h1, a')" by (cases "clone_patient h a")
  obtain h3 as'' where c2: "clone_patients h1 as = (h3, as'')" by (cases "clone_patients h1 as")
  from Cons.prems c1 c2 have eq: "h2 = h3" "as' = a' # as''" by (simp_all add: Let_def)
  from c1 have h1: "patient_next h1 = Suc (patient_next h)" "a' = patient_next h"
    "state_objs h1 = state_objs h" "state_next h1 = state_next h"
    "\<forall>b < patient_next h. patient_objs h1 b = patient_objs h b"
    by (auto simp: clone_patient_def alloc_patient_def)
  from Cons.IH [OF c2] h1 eq show ?case by auto
qed

lemma clone_state_inv:
  assumes "clone_state h sa0 = (h1, sa)"
  shows "sim_inv h sa h1"
proof -
  obtain h2 ps where cp: "clone_patients h (patients (state_objs h sa0)) = (h2, ps)"
    by (cases "clone_patients h (patients (state_objs h sa0))")
  from assms have "alloc_state h2 ((state_objs h sa0)\<lparr>patients := ps\<rparr>) = (h1, sa)"
    by (simp add: clone_state_def Let_def cp)
  then have sa: "sa = state_next h2"
    and pn: "patient_next h1 = patient_next h2"
    and sn: "state_next h1 = Suc (state_next h2)"
    and po: "patient_objs h1 = patient_objs h2"
    and so: "state_objs h1 = (state_objs h2)(state_next h2 := (state_objs h sa0)\<lparr>patients := ps\<rparr>)"
    by (auto simp: alloc_state_def)
  from clone_patients_spec [OF cp]
  have c: "patient_next h \<le> patient_next h2"
    "\<forall>a < patient_next h. patient_objs h2 a = patient_objs h a"
    "state_objs h2 = state_objs h" "state_next h2 = state_next h"
    "\<forall>a \<in> set ps. patient_next h \<le> a"
    by simp_all
  have "frame h h1"
    unfolding frame_def pn sn po so using c by simp
  moreover have "state_next h \<le> sa" using sa c(4) by simp
  moreover have "\<forall>a \<in> set (patients (state_objs h1 sa)). patient_next h \<le> a"
    unfolding so sa using c(5) by simp
  ultimately show ?thesis by (simp add: sim_inv_def)
qed

lemma simulate_frame:
  "frame h (fst (simulate_action_sequence positions h sa0 nurse_actions doctor_actions T))"
proof -
  obtain h1 sa where cs: "clone_state h sa0 = (h1, sa)" by (cases "clone_state h sa0")
  let ?m = "\<lparr>total_healing = 0, metrics_total_penalty = 0, patients_completed = 0,
               cooperation_events = 0, idle_time = 0\<rparr>"
  have "sim_inv h sa (fst (sim_loop positions T nurse_actions doctor_actions h1 sa 0 0 ?m))"
    by (rule sim_loop_inv [OF clone_state_inv [OF cs]])
  then have "frame h (fst (sim_loop positions T nurse_actions doctor_actions h1 sa 0 0 ?m))"
    by (simp add: sim_inv_def)
  then show ?thesis
    unfolding simulate_action_sequence_def cs Let_def prod.case
    by (cases "sim_loop positions T nurse_actions doctor_actions h1 sa 0 0 ?m";
        cases "snd (sim_loop positions T nurse_actions doctor_actions h1 sa 0 0 ?m)") simp_all
qed

text \<open>
  Claim C7. For every store, every state object of it whose roster is allocated, and
  every pair of action sequences, \<^verbatim>\<open>simulate_action_sequence\<close> leaves the passed-in
  state object and every patient object of its roster as they were, whether it returns
  or raises; more, no object allocated before the call is changed.
\<close>

theorem simulate_leaves_caller_state:
  assumes "initial_state < state_next h"
    and "\<forall>a \<in> set (patients (state_objs h initial_state)). a < patient_next h"
  shows "let h' = fst (simulate_action_sequence positions h initial_state
                        nurse_actions doctor_actions simulation_time)
         in state_objs h' initial_state = state_objs h initial_state
            \<and> roster h' initial_state = roster h initial_state
            \<and> frame h h'"
proof -
  let ?h' = "fst (simulate_action_sequence positions h initial_state
                        nurse_actions doctor_actions simulation_time)"
  have f: "frame h ?h'" by (rule simulate_frame)
  with assms(1) have s: "state_objs ?h' initial_state = state_objs h initial_state"
    by (simp add: frame_def)
  have "map (patient_objs ?h') (patients (state_objs h initial_state))
      = map (patient_objs h) (patients (state_objs h initial_state))"
    using f assms(2) by (intro map_cong) (auto simp: frame_def)
  with s have "roster ?h' initial_state = roster h initial_state"
    by (simp add: roster_def)
  with f s show ?thesis by (simp add: Let_def)
qed

text \<open>A store with one state whose roster is one spawned Minor patient.\<close>

definition example_heap :: heap where
  "example_heap =
     \<lparr>patient_objs = (\<lambda>_. new_patient 1 Minor), patient_next = 1,
      state_objs = (\<lambda>_. \<lparr>patients = [0], nurse_pos = ''ENT'', doctor_pos = ''ENT'',
                          nurse_busy_until = 0, doctor_busy_until = 0, current_time = 0,
                          total_reward = 0, total_penalty = 0, completed_patients = 0\<rparr>),
      state_next = 1\<rparr>"

lemma example_heap_simps:
  "state_next example_heap = 1" "patient_next example_heap = 1"
  "state_objs example_heap 0 = \<lparr>patients = [0], nurse_pos = ''ENT'', doctor_pos = ''ENT'',
      nurse_busy_until = 0, doctor_busy_until = 0, current_time = 0,
      total_reward = 0, total_penalty = 0, completed_patients = 0\<rparr>"
  "patient_objs example_heap 0 = new_patient 1 Minor"
  by (simp_all add: example_heap_def)

theorem simulate_leaves_caller_state_witness:
  "(0::nat) < state_next example_heap
   \<and> roster (fst (simulate_action_sequence ROOM_POSITIONS example_heap 0 [TREAT_PATIENT 1] [WAIT] 100)) 0
       = [new_patient 1 Minor]
   \<and> current_time (state_objs (fst (simulate_action_sequence ROOM_POSITIONS example_heap 0
         [TREAT_PATIENT 1] [WAIT] 100)) 0) = 0"
proof -
  have "(0::nat) < state_next example_heap"
    and "\<forall>a \<in> set (patients (state_objs example_heap 0)). a < patient_next example_heap"
    by (simp_all add: example_heap_simps)
  from simulate_leaves_caller_state [OF this, of ROOM_POSITIONS "[TREAT_PATIENT 1]" "[WAIT]" 100]
  show ?thesis
    by (auto simp: Let_def roster_def example_heap_simps)
qed

section \<open>Health and progress stay in range (claim C8)\<close>

lemma upd_patient_ok:
  assumes "heap_ok h" and "patient_ok (patient_objs h a) \<Longrightarrow> patient_ok (f (patient_objs h a))"
  shows "heap_ok (upd_patient h a f)"
  using assms by (auto simp: heap_ok_def upd_patient_def)

lemma upd_state_ok [simp]: "heap_ok (upd_state h sa f) = heap_ok h"
  by (simp add: heap_ok_def upd_state_def)

lemma alloc_patient_ok:
  assumes "heap_ok h" and "patient_ok p"
  shows "heap_ok (fst (alloc_patient h p))"
  using assms by (auto simp: heap_ok_def alloc_patient_def less_Suc_eq)

lemma alloc_state_ok [simp]: "heap_ok (fst (alloc_state h s)) = heap_ok h"
  by (simp add: heap_ok_def alloc_state_def)

lemma patient_ok_fields:
  "health p' = health p \<Longrightarrow> current_step p' = current_step p \<Longrightarrow> pathway p' = pathway p \<Longrightarrow>
     patient_ok p' = patient_ok p"
  by (simp add: patient_ok_def is_complete_def)

lemma WAITING_PENALTY_neg: "WAITING_PENALTY t < 0"
  by (cases t) simp_all

lemma waiting_update_ok:
  assumes "patient_ok p" and "0 \<le> d"
  shows "patient_ok (p\<lparr>waiting_time := waiting_time p + d,
                        health := max 0 (health p + WAITING_PENALTY t * d)\<rparr>)"
proof -
  have "WAITING_PENALTY t * d \<le> 0"
    using WAITING_PENALTY_neg [of t] assms(2) by (simp add: mult_nonpos_nonneg)
  with assms(1) show ?thesis by (auto simp: patient_ok_def is_complete_def)
qed

lemma waiting_loop_ok:
  "heap_ok (fst hp) \<Longrightarrow> 0 \<le> d \<Longrightarrow> heap_ok (fst (waiting_loop d as hp))"
proof (induction d as hp rule: waiting_loop.induct)
  case (1 d h penalty)
  then show ?case by simp
next
  case (2 d a as h penalty)
  show ?case
  proof (cases "being_treated_by (patient_objs h a) = []")
    case True
    let ?h1 = "upd_patient h a (\<lambda>p. p\<lparr>waiting_time := waiting_time p + d,
        health := max 0 (health p + WAITING_PENALTY (ptype (patient_objs h a)) * d)\<rparr>)"
    from "2.prems" have "heap_ok ?h1"
      by (intro upd_patient_ok waiting_update_ok) simp_all
    with "2.IH"(1) [OF True refl] "2.prems" True show ?thesis by (simp add: Let_def)
  next
    case False
    with "2.IH"(2) "2.prems" show ?thesis by simp
  qed
qed

lemma apply_waiting_penalties_ok:
  "heap_ok h \<Longrightarrow> 0 \<le> d \<Longrightarrow> heap_ok (fst (apply_waiting_penalties h sa d))"
  using waiting_loop_ok [of "(h, 0)" d "patients (state_objs h sa)"]
  by (simp add: apply_waiting_penalties_def split_def Let_def)

lemma dead_loop_ok: "heap_ok (fst (dead_loop sa dead hm)) = heap_ok (fst hm)"
  by (induction sa dead hm rule: dead_loop.induct) simp_all

lemma remove_dead_ok: "heap_ok (fst (remove_dead h sa m)) = heap_ok h"
  by (simp add: remove_dead_def dead_loop_ok)

lemma completed_loop_ok: "heap_ok (fst (completed_loop sa cs hm)) = heap_ok (fst hm)"
  by (induction sa cs hm rule: completed_loop.induct) simp_all

lemma remove_completed_ok: "heap_ok (fst (remove_completed h sa m)) = heap_ok h"
  by (simp add: remove_completed_def completed_loop_ok)

lemma effectiveness_nonneg: "0 \<le> dict_get ROOM_EFFECTIVENESS room 0.2"
  by (simp add: dict_get_def ROOM_EFFECTIVENESS_def)

lemma treatment_time_pos: "0 < dict_get ROOM_TREATMENT_TIME room 10"
  by (simp add: dict_get_def ROOM_TREATMENT_TIME_def)

lemma next_room_Some: "next_room p = Returned (Some room) \<Longrightarrow> \<not> is_complete p"
  by (auto simp: next_room_def split: if_splits option.splits)

lemma treat_update_ok:
  assumes "patient_ok p" and "\<not> is_complete p" and "0 \<le> healing"
  shows "patient_ok (p\<lparr>health := min 100 (health p + healing), current_step := current_step p + 1\<rparr>)"
  using assms by (auto simp: patient_ok_def is_complete_def)

lemma treat_patient_ok:
  assumes "heap_ok h" and "0 \<le> dur"
  shows "heap_ok (fst (treat_patient h sa pa ag dur coop))"
proof (cases "next_room (patient_objs h pa)")
  case (Raised e)
  with assms show ?thesis by (simp add: treat_patient_def)
next
  case (Returned ro)
  show ?thesis
  proof (cases ro)
    case None
    with Returned assms show ?thesis by (simp add: treat_patient_def)
  next
    case (Some room)
    define healing where "healing =
        (if coop then (if ag = doctor then DOCTOR_HEALING_POWER else NURSE_HEALING_POWER) * COOPERATIVE_BONUS
         else (if ag = doctor then DOCTOR_HEALING_POWER else NURSE_HEALING_POWER))
        * dict_get ROOM_EFFECTIVENESS room 0.2
        * (dur / real_of_int (dict_get ROOM_TREATMENT_TIME room 10))"
    have "0 \<le> (if coop then (if ag = doctor then DOCTOR_HEALING_POWER else NURSE_HEALING_POWER) * COOPERATIVE_BONUS
         else (if ag = doctor then DOCTOR_HEALING_POWER else NURSE_HEALING_POWER))"
      by (simp add: DOCTOR_HEALING_POWER_def NURSE_HEALING_POWER_def COOPERATIVE_BONUS_def)
    moreover have "0 \<le> dur / real_of_int (dict_get ROOM_TREATMENT_TIME room 10)"
      using assms(2) treatment_time_pos [of room] by simp
    ultimately have hn: "0 \<le> healing"
      unfolding healing_def using effectiveness_nonneg [of room] by (intro mult_nonneg_nonneg)
    from Returned Some have nc: "\<not> is_complete (patient_objs h pa)" by (simp add: next_room_Some)
    let ?h2 = "upd_patient (upd_patient h pa (\<lambda>p. p\<lparr>health := min 100 (health p + healing)\<rparr>)) pa
                 (\<lambda>p. p\<lparr>current_step := current_step p + 1\<rparr>)"
    have eq: "?h2 = upd_patient h pa
        (\<lambda>p. p\<lparr>health := min 100 (health p + healing), current_step := current_step p + 1\<rparr>)"
      by (simp add: upd_patient_def)
    have ok2: "heap_ok ?h2"
      unfolding eq using assms(1) nc hn by (intro upd_patient_ok treat_update_ok)
    show ?thesis
      using Returned Some ok2
      unfolding treat_patient_def healing_def Let_def
      by simp
  qed
qed

lemma treat_at_ok:
  assumes "heap_ok h"
  shows "heap_ok (fst (treat_at positions h sa ag pa room m))"
proof -
  define busy where "busy = current_time (state_objs h sa)
      + room_distance positions (if ag = nurse then nurse_pos (state_objs h sa) else doctor_pos (state_objs h sa)) room
          / (if ag = nurse then nurse_speed else doctor_speed)
      + real_of_int (dict_get ROOM_TREATMENT_TIME room 10)"
  define h1 where "h1 = (if ag = nurse
       then upd_state h sa (\<lambda>s. s\<lparr>nurse_busy_until := busy, nurse_pos := room\<rparr>)
       else upd_state h sa (\<lambda>s. s\<lparr>doctor_busy_until := busy, doctor_pos := room\<rparr>))"
  define h2 where "h2 = upd_patient h1 pa (\<lambda>p. p\<lparr>being_treated_by := being_treated_by p @ [ag]\<rparr>)"
  have i1: "heap_ok h1" unfolding h1_def using assms by simp
  have i2: "heap_ok h2"
    unfolding h2_def using i1 by (rule upd_patient_ok) (simp add: patient_ok_def is_complete_def)
  obtain h3 r where tp: "treat_patient h2 sa pa ag (real_of_int (dict_get ROOM_TREATMENT_TIME room 10))
      (length (being_treated_by (patient_objs h pa)) > 0) = (h3, r)"
    by (cases "treat_patient h2 sa pa ag (real_of_int (dict_get ROOM_TREATMENT_TIME room 10))
      (length (being_treated_by (patient_objs h pa)) > 0)")
  have "0 \<le> real_of_int (dict_get ROOM_TREATMENT_TIME room 10)"
    using treatment_time_pos [of room] by simp
  with i2 have "heap_ok (fst (h3, r))"
    unfolding tp [symmetric] by (rule treat_patient_ok)
  then have i3: "heap_ok h3" by simp
  then have i4: "heap_ok (upd_patient h3 pa (\<lambda>p. p\<lparr>being_treated_by := remove1 ag (being_treated_by p)\<rparr>))"
    by (rule upd_patient_ok) (simp add: patient_ok_def is_complete_def)
  show ?thesis
    using tp i3 i4
    unfolding treat_at_def Let_def busy_def [symmetric] h1_def [symmetric] h2_def [symmetric]
    by (cases r) simp_all
qed

lemma execute_agent_action_ok:
  assumes "heap_ok h"
  shows "heap_ok (fst (execute_agent_action positions h sa ag act m))"
proof (cases act)
  case (TREAT_PATIENT k)
  from treat_at_ok [OF assms] assms show ?thesis
    by (simp add: TREAT_PATIENT execute_agent_action_def Let_def
        split: outcome.splits option.splits)
next
  case TREAT_PATIENT_malformed
  with assms show ?thesis by (simp add: execute_agent_action_def)
next
  case WAIT
  with assms show ?thesis by (simp add: execute_agent_action_def)
next
  case other_action
  with assms show ?thesis by (simp add: execute_agent_action_def)
qed

lemma agent_turn_ok:
  assumes "heap_ok h"
  shows "heap_ok (fst (agent_turn positions actions ag h sa idx m))"
  using assms execute_agent_action_ok [OF assms, of positions sa ag "actions ! idx" m]
  by (auto simp: agent_turn_def Let_def split: prod.splits outcome.splits)

lemma tick_ok:
  assumes "heap_ok h"
  shows "heap_ok (fst (tick positions nurse_actions doctor_actions h sa ni di m))"
proof -
  obtain h1 penalty where awp: "apply_waiting_penalties h sa 1 = (h1, penalty)"
    by (cases "apply_waiting_penalties h sa 1")
  let ?m1 = "m\<lparr>metrics_total_penalty := metrics_total_penalty m + \<bar>penalty\<bar>\<rparr>"
  obtain h2 m2 where rd: "remove_dead h1 sa ?m1 = (h2, m2)"
    by (cases "remove_dead h1 sa ?m1")
  obtain h3 o3 where nt: "agent_turn positions nurse_actions nurse h2 sa ni m2 = (h3, o3)"
    by (cases "agent_turn positions nurse_actions nurse h2 sa ni m2")
  have i1: "heap_ok h1"
    using apply_waiting_penalties_ok [OF assms, of 1 sa] awp by simp
  have i2: "heap_ok h2"
    using remove_dead_ok [of h1 sa ?m1] i1 rd by simp
  have i3: "heap_ok h3"
    using agent_turn_ok [OF i2, of positions nurse_actions nurse sa ni m2] nt by simp
  show ?thesis
  proof (cases o3)
    case (Raised e)
    with awp rd nt i3 show ?thesis by (simp add: tick_def Let_def)
  next
    case (Returned r3)
    obtain ni' m3 where r3: "r3 = (ni', m3)" by (cases r3)
    obtain h4 o4 where dt: "agent_turn positions doctor_actions doctor h3 sa di m3 = (h4, o4)"
      by (cases "agent_turn positions doctor_actions doctor h3 sa di m3")
    have i4: "heap_ok h4"
      using agent_turn_ok [OF i3, of positions doctor_actions doctor sa di m3] dt by simp
    show ?thesis
    proof (cases o4)
      case (Raised e)
      with awp rd nt Returned r3 dt i4 show ?thesis by (simp add: tick_def Let_def)
    next
      case r4: (Returned r4)
      obtain di' m4 where r4': "r4 = (di', m4)" by (cases r4)
      obtain h5 m5 where rc: "remove_completed h4 sa m4 = (h5, m5)"
        by (cases "remove_completed h4 sa m4")
      have i5: "heap_ok h5"
        using remove_completed_ok [of h4 sa m4] i4 rc by simp
      with awp rd nt Returned r3 dt r4 r4' rc show ?thesis by (simp add: tick_def Let_def)
    qed
  qed
qed

lemma sim_loop_ok:
  "heap_ok h \<Longrightarrow> heap_ok (fst (sim_loop positions T nurse_actions doctor_actions h sa ni di m))"
proof (induction positions T nurse_actions doctor_actions h sa ni di m rule: sim_loop.induct)
  case (1 positions T nurse_actions doctor_actions h sa ni di m)
  show ?case
  proof (cases "current_time (state_objs h sa) < T \<and> patients (state_objs h sa) \<noteq> []")
    case False
    with "1.prems" show ?thesis by (subst sim_loop.simps) auto
  next
    case True
    obtain h' r where t: "tick positions nurse_actions doctor_actions h sa ni di m = (h', r)"
      by (cases "tick positions nurse_actions doctor_actions h sa ni di m")
    have i: "heap_ok h'"
      using tick_ok [OF "1.prems", of positions nurse_actions doctor_actions sa ni di m] t by simp
    show ?thesis
    proof (cases r)
      case (Raised e)
      with True t i show ?thesis by (subst sim_loop.simps) simp
    next
      case (Returned x)
      obtain ni' y where x: "(ni', y) = x" by (cases x) auto
      obtain di' m' where y: "(di', m') = y" by (cases y) auto
      from "1.IH" [OF True t [symmetric] Returned x y i]
      have "heap_ok (fst (sim_loop positions T nurse_actions doctor_actions h' sa ni' di' m'))" .
      with True t Returned x [symmetric] y [symmetric] show ?thesis
        by (subst sim_loop.simps) simp
    qed
  qed
qed

lemma post_init_ok: "patient_ok (post_init p) = patient_ok p"
  by (rule patient_ok_fields) (simp_all add: post_init_def Let_def)

lemma clone_patients_ok:
  "heap_ok h \<Longrightarrow> \<forall>a \<in> set as. patient_ok (patient_objs h a) \<Longrightarrow>
     heap_ok (fst (clone_patients h as))
     \<and> (\<forall>b. patient_ok (patient_objs h b) \<longrightarrow> patient_ok (patient_objs (fst (clone_patients h as)) b))"
proof (induction as arbitrary: h)
  case Nil
  then show ?case by simp
next
  case (Cons a as)
  let ?h1 = "fst (clone_patient h a)"
  have h1: "?h1 = h\<lparr>patient_objs := (patient_objs h)(patient_next h := post_init (patient_objs h a)),
        patient_next := Suc (patient_next h)\<rparr>"
    by (simp add: clone_patient_def alloc_patient_def)
  from Cons.prems have oka: "patient_ok (post_init (patient_objs h a))" by (simp add: post_init_ok)
  have ok1: "heap_ok ?h1"
    unfolding clone_patient_def using Cons.prems(1) oka by (rule alloc_patient_ok)
  have keep: "patient_ok (patient_objs ?h1 b)" if "patient_ok (patient_objs h b)" for b
    using that oka by (simp add: h1)
  with Cons.prems have "\<forall>a \<in> set as. patient_ok (patient_objs ?h1 a)" by simp
  from Cons.IH [OF ok1 this] keep show ?case
    by (simp add: split_def Let_def)
qed


lemma clone_state_ok:
  assumes "heap_ok h" and "\<forall>a \<in> set (patients (state_objs h sa)). a < patient_next h"
  shows "heap_ok (fst (clone_state h sa))"
proof -
  from assms have "\<forall>a \<in> set (patients (state_objs h sa)). patient_ok (patient_objs h a)"
    by (simp add: heap_ok_def)
  from clone_patients_ok [OF assms(1) this]
  have "heap_ok (fst (clone_patients h (patients (state_objs h sa))))" by simp
  then show ?thesis by (simp add: clone_state_def split_def Let_def)
qed

lemma simulate_ok:
  assumes "heap_ok h" and "\<forall>a \<in> set (patients (state_objs h sa)). a < patient_next h"
  shows "heap_ok (fst (simulate_action_sequence positions h sa nurse_actions doctor_actions T))"
proof -
  obtain h1 sa1 where cs: "clone_state h sa = (h1, sa1)" by (cases "clone_state h sa")
  let ?m = "\<lparr>total_healing = 0, metrics_total_penalty = 0, patients_completed = 0,
               cooperation_events = 0, idle_time = 0\<rparr>"
  from clone_state_ok [OF assms] cs have "heap_ok h1" by simp
  then have "heap_ok (fst (sim_loop positions T nurse_actions doctor_actions h1 sa1 0 0 ?m))"
    by (rule sim_loop_ok)
  then show ?thesis
    unfolding simulate_action_sequence_def cs Let_def prod.case
    by (cases "sim_loop positions T nurse_actions doctor_actions h1 sa1 0 0 ?m";
        cases "snd (sim_loop positions T nurse_actions doctor_actions h1 sa1 0 0 ?m)") simp_all
qed

lemma new_patient_ok: "patient_ok (new_patient i t)"
  by (cases t) (simp_all add: patient_ok_def is_complete_def new_patient_def)

lemma spawn_patient_ok:
  assumes "heap_ok h"
  shows "heap_ok (fst (spawn_patient h az t))"
proof -
  have "heap_ok (fst (alloc_patient h (new_patient (patient_counter az + 1) t)))"
    using assms new_patient_ok by (rule alloc_patient_ok)
  then show ?thesis
    by (cases "current_state az") (simp_all add: spawn_patient_def split_def Let_def)
qed

lemma step_update_ok:
  "patient_ok p \<Longrightarrow> \<not> is_complete p \<Longrightarrow> patient_ok (p\<lparr>current_step := current_step p + 1\<rparr>)"
  by (auto simp: patient_ok_def is_complete_def)

lemma step_loop_ok: "heap_ok h \<Longrightarrow> heap_ok (fst (step_loop h i as))"
proof (induction as)
  case Nil
  then show ?case by simp
next
  case (Cons a as)
  have "heap_ok (upd_patient h a (\<lambda>p. p\<lparr>current_step := current_step p + 1\<rparr>))"
    if "\<not> is_complete (patient_objs h a)"
    using Cons.prems that by (intro upd_patient_ok step_update_ok)
  with Cons show ?case by (simp add: Let_def)
qed

lemma step_patient_ok: "heap_ok h \<Longrightarrow> heap_ok (fst (step_patient h az i))"
  by (cases "current_state az") (simp_all add: step_patient_def step_loop_ok)

lemma remove_patient_ok: "heap_ok h \<Longrightarrow> heap_ok (remove_patient h az i)"
  by (cases "current_state az") (simp_all add: remove_patient_def)

lemma reachable_heap_ok: "reachable_heap h \<Longrightarrow> heap_ok h"
proof (induction rule: reachable_heap.induct)
  case reach_empty
  then show ?case by (simp add: heap_ok_def empty_heap_def)
next
  case (reach_spawn h az t)
  then show ?case by (simp add: spawn_patient_ok)
next
  case (reach_step h az i)
  then show ?case by (simp add: step_patient_ok)
next
  case (reach_remove h az i)
  then show ?case by (simp add: remove_patient_ok)
next
  case (reach_clone h sa)
  then show ?case by (simp add: clone_state_ok)
next
  case (reach_waiting h time_delta sa)
  then show ?case by (simp add: apply_waiting_penalties_ok)
next
  case (reach_dead h sa m)
  then show ?case by (simp add: remove_dead_ok)
next
  case (reach_action h positions sa ag act m)
  then show ?case by (simp add: execute_agent_action_ok)
next
  case (reach_completed h sa m)
  then show ?case by (simp add: remove_completed_ok)
next
  case (reach_tick h positions nurse_actions doctor_actions sa ni di m)
  then show ?case by (simp add: tick_ok)
next
  case (reach_simulate h sa positions nurse_actions doctor_actions T)
  then show ?case by (simp add: simulate_ok)
qed

text \<open>
  Claim C8. In every store reached through spawning, the step-complete operation and the
  simulator (waiting penalties, treatment, whole ticks and whole simulations), every
  allocated patient has a health between 0 and 100 and a current step between 0 and the
  length of its pathway, and is complete exactly when the current step equals that
  length.
\<close>

theorem patient_invariant:
  "reachable_heap h \<Longrightarrow> a < patient_next h \<Longrightarrow>
     0 \<le> health (patient_objs h a) \<and> health (patient_objs h a) \<le> 100
     \<and> 0 \<le> current_step (patient_objs h a)
     \<and> current_step (patient_objs h a) \<le> int (length (pathway (patient_objs h a)))
     \<and> (is_complete (patient_objs h a)
          \<longleftrightarrow> current_step (patient_objs h a) = int (length (pathway (patient_objs h a))))"
  using reachable_heap_ok [of h] by (simp add: heap_ok_def patient_ok_def)

text \<open>
  One Critical patient is spawned into the empty store, its first step is marked
  complete, and it waits for one minute.
\<close>

definition spawned_heap :: heap where
  "spawned_heap = fst (spawn_patient empty_heap analyzer_init Critical)"

definition spawned_analyzer :: analyzer where
  "spawned_analyzer = fst (snd (spawn_patient empty_heap analyzer_init Critical))"

definition waited_heap :: heap where
  "waited_heap = fst (apply_waiting_penalties (fst (step_patient spawned_heap spawned_analyzer 1)) 0 1)"

lemma spawned_heap_eq:
  "spawned_heap = \<lparr>patient_objs = (patient_objs empty_heap)(0 := new_patient 1 Critical), patient_next = 1,
      state_objs = (state_objs empty_heap)(0 := default_state\<lparr>patients := [0]\<rparr>), state_next = 1\<rparr>"
  "spawned_analyzer = \<lparr>cfr = cfr_init, patient_counter = 1, current_state = Some 0\<rparr>"
  by (simp_all add: spawned_heap_def spawned_analyzer_def spawn_patient_def analyzer_init_def
      alloc_patient_def alloc_state_def upd_state_def Let_def empty_heap_def default_state_def)

lemma waited_heap_reachable: "reachable_heap waited_heap"
  unfolding waited_heap_def spawned_heap_def
  by (intro reach_waiting reach_step reach_spawn reach_empty) simp

lemma waited_heap_patient:
  "patient_next waited_heap = 1"
  "health (patient_objs waited_heap 0) = 27"
  "current_step (patient_objs waited_heap 0) = 1"
  "pathway (patient_objs waited_heap 0) = [''TRIAGE'', ''TB'', ''ICU'']"
  by (simp_all add: waited_heap_def spawned_heap_eq step_patient_def apply_waiting_penalties_def
      upd_patient_def upd_state_def new_patient_def is_complete_def default_state_def Let_def)

theorem patient_invariant_witness:
  "reachable_heap waited_heap \<and> (0::nat) < patient_next waited_heap
   \<and> health (patient_objs waited_heap 0) = 27
   \<and> current_step (patient_objs waited_heap 0) = 1
   \<and> length (pathway (patient_objs waited_heap 0)) = 3
   \<and> \<not> is_complete (patient_objs waited_heap 0)"
  using patient_invariant [of waited_heap 0] waited_heap_reachable
  by (simp add: waited_heap_patient)

section \<open>A treat action is dispatched by roster position (claim C10)\<close>

lemma next_room_fields:
  "pathway p' = pathway p \<Longrightarrow> current_step p' = current_step p \<Longrightarrow> next_room p' = next_room p"
  by (simp add: next_room_def is_complete_def)

lemma treat_patient_effect:
  assumes "next_room (patient_objs h pa) = Returned (Some room)"
  shows "current_step (patient_objs (fst (treat_patient h sa pa ag dur coop)) pa)
           = current_step (patient_objs h pa) + 1"
    and "a \<noteq> pa \<Longrightarrow> patient_objs (fst (treat_patient h sa pa ag dur coop)) a = patient_objs h a"
    and "\<exists>rew. snd (treat_patient h sa pa ag dur coop) = Returned rew"
  using assms
  by (simp_all add: treat_patient_def Let_def upd_patient_def upd_state_def)

lemma treat_at_effect:
  assumes "next_room (patient_objs h pa) = Returned (Some room)"
  shows "current_step (patient_objs (fst (treat_at positions h sa ag pa room m)) pa)
           = current_step (patient_objs h pa) + 1"
    and "a \<noteq> pa \<Longrightarrow> patient_objs (fst (treat_at positions h sa ag pa room m)) a = patient_objs h a"
proof -
  define busy where "busy = current_time (state_objs h sa)
      + room_distance positions (if ag = nurse then nurse_pos (state_objs h sa) else doctor_pos (state_objs h sa)) room
          / (if ag = nurse then nurse_speed else doctor_speed)
      + real_of_int (dict_get ROOM_TREATMENT_TIME room 10)"
  define h1 where "h1 = (if ag = nurse
       then upd_state h sa (\<lambda>s. s\<lparr>nurse_busy_until := busy, nurse_pos := room\<rparr>)
       else upd_state h sa (\<lambda>s. s\<lparr>doctor_busy_until := busy, doctor_pos := room\<rparr>))"
  define h2 where "h2 = upd_patient h1 pa (\<lambda>p. p\<lparr>being_treated_by := being_treated_by p @ [ag]\<rparr>)"
  have p1: "patient_objs h1 = patient_objs h" by (simp add: h1_def upd_state_def)
  have p2: "patient_objs h2 pa = (patient_objs h pa)\<lparr>being_treated_by := being_treated_by (patient_objs h pa) @ [ag]\<rparr>"
    and o2: "\<And>b. b \<noteq> pa \<Longrightarrow> patient_objs h2 b = patient_objs h b"
    by (simp_all add: h2_def upd_patient_def p1)
  have "next_room (patient_objs h2 pa) = next_room (patient_objs h pa)"
    by (rule next_room_fields) (simp_all add: p2)
  with assms have nr: "next_room (patient_objs h2 pa) = Returned (Some room)" by simp
  obtain h3 r where tp: "treat_patient h2 sa pa ag (real_of_int (dict_get ROOM_TREATMENT_TIME room 10))
      (length (being_treated_by (patient_objs h pa)) > 0) = (h3, r)"
    by (cases "treat_patient h2 sa pa ag (real_of_int (dict_get ROOM_TREATMENT_TIME room 10))
      (length (being_treated_by (patient_objs h pa)) > 0)")
  from treat_patient_effect [OF nr, where sa = sa and ag = ag
      and dur = "real_of_int (dict_get ROOM_TREATMENT_TIME room 10)"
      and coop = "length (being_treated_by (patient_objs h pa)) > 0"] tp
  have s3: "current_step (patient_objs h3 pa) = current_step (patient_objs h2 pa) + 1"
    and o3: "\<And>b. b \<noteq> pa \<Longrightarrow> patient_objs h3 b = patient_objs h2 b"
    and r: "\<exists>rew. r = Returned rew"
    by simp_all
  from r obtain rew where rew: "r = Returned rew" by blast
  have res: "fst (treat_at positions h sa ag pa room m)
      = upd_patient h3 pa (\<lambda>p. p\<lparr>being_treated_by := remove1 ag (being_treated_by p)\<rparr>)"
    using tp rew
    unfolding treat_at_def Let_def busy_def [symmetric] h1_def [symmetric] h2_def [symmetric]
    by simp
  show "current_step (patient_objs (fst (treat_at positions h sa ag pa room m)) pa)
           = current_step (patient_objs h pa) + 1"
    using s3 by (simp add: res upd_patient_def p2)
  show "patient_objs (fst (treat_at positions h sa ag pa room m)) a = patient_objs h a" if "a \<noteq> pa"
    using that o3 [OF that] o2 [OF that] by (simp add: res upd_patient_def)
qed

lemma py_index_nonneg: "0 \<le> i \<Longrightarrow> i < int (length xs) \<Longrightarrow> py_index xs i = Some (xs ! nat i)"
  by (simp add: py_index_def)

lemma is_complete_next_room: "is_complete p \<Longrightarrow> next_room p = Returned None"
  by (simp add: next_room_def)

text \<open>
  Claim C10. For \<open>k \<ge> 1\<close>, the action \<^verbatim>\<open>TREAT_PATIENT_k\<close> is dispatched to the patient
  object at roster position \<open>k - 1\<close>, whatever its id: when that position exists and the
  patient there has a next room, the action is the treatment of that object (its step
  advances by one and no other patient object changes); when the position does not
  exist or the patient there is complete, the action returns reward 0 with the store and
  the metrics unchanged and without raising. For a roster of distinct patient objects
  with ids from 1, the action built from each patient's id is dispatched to that
  patient exactly when every patient's id is its roster position plus one.
\<close>

theorem treat_action_dispatch:
  assumes "1 \<le> k"
  shows
    "(let ps = patients (state_objs h sa);
          target = ps ! nat (k - 1);
          h' = fst (execute_agent_action positions h sa ag (TREAT_PATIENT k) m)
      in (k - 1 < int (length ps) \<and> next_room (patient_objs h target) = Returned (Some room)
            \<and> room \<noteq> [] \<longrightarrow>
            dispatch_target h sa k = Some target
            \<and> execute_agent_action positions h sa ag (TREAT_PATIENT k) m
                = treat_at positions h sa ag target room m
            \<and> current_step (patient_objs h' target) = current_step (patient_objs h target) + 1
            \<and> (\<forall>a. a \<noteq> target \<longrightarrow> patient_objs h' a = patient_objs h a))
         \<and> (\<not> k - 1 < int (length ps) \<or> is_complete (patient_objs h target) \<longrightarrow>
              execute_agent_action positions h sa ag (TREAT_PATIENT k) m = (h, m, Returned 0))
         \<and> (distinct ps \<and> (\<forall>a \<in> set ps. 1 \<le> pid (patient_objs h a)) \<longrightarrow>
              ((\<forall>i < length ps. dispatch_target h sa (pid (patient_objs h (ps ! i))) = Some (ps ! i))
                 \<longleftrightarrow> (\<forall>i < length ps. pid (patient_objs h (ps ! i)) = int i + 1))))"
proof -
  define ps where "ps = patients (state_objs h sa)"
  define target where "target = ps ! nat (k - 1)"
  define h' where "h' = fst (execute_agent_action positions h sa ag (TREAT_PATIENT k) m)"
  have dt: "dispatch_target h sa j = (if j - 1 < int (length ps) then Some (ps ! nat (j - 1)) else None)"
    if "1 \<le> j" for j
    using that by (simp add: dispatch_target_def Let_def ps_def py_index_nonneg)
  have A: "dispatch_target h sa k = Some target
            \<and> execute_agent_action positions h sa ag (TREAT_PATIENT k) m
                = treat_at positions h sa ag target room m
            \<and> current_step (patient_objs h' target) = current_step (patient_objs h target) + 1
            \<and> (\<forall>a. a \<noteq> target \<longrightarrow> patient_objs h' a = patient_objs h a)"
    if "k - 1 < int (length ps) \<and> next_room (patient_objs h target) = Returned (Some room) \<and> room \<noteq> []"
  proof -
    from that have len: "k - 1 < int (length ps)"
      and nr: "next_room (patient_objs h target) = Returned (Some room)" and ne: "room \<noteq> []"
      by simp_all
    have pi: "py_index (patients (state_objs h sa)) (k - 1) = Some target"
      using assms len by (simp add: py_index_nonneg ps_def target_def)
    have ex: "execute_agent_action positions h sa ag (TREAT_PATIENT k) m
                = treat_at positions h sa ag target room m"
      using len pi nr ne by (simp add: execute_agent_action_def Let_def ps_def)
    from treat_at_effect [OF nr, where positions = positions and sa = sa and ag = ag and m = m]
      ex dt [OF assms] len
    show ?thesis by (simp add: h'_def target_def)
  qed
  have B: "execute_agent_action positions h sa ag (TREAT_PATIENT k) m = (h, m, Returned 0)"
    if "\<not> k - 1 < int (length ps) \<or> is_complete (patient_objs h target)"
  proof (cases "k - 1 < int (length ps)")
    case False
    then show ?thesis by (simp add: execute_agent_action_def Let_def ps_def)
  next
    case True
    with that have c: "is_complete (patient_objs h target)" by simp
    have pi: "py_index (patients (state_objs h sa)) (k - 1) = Some target"
      using assms True by (simp add: py_index_nonneg ps_def target_def)
    from True pi is_complete_next_room [OF c] show ?thesis
      by (simp add: execute_agent_action_def Let_def ps_def)
  qed
  have C: "(\<forall>i < length ps. dispatch_target h sa (pid (patient_objs h (ps ! i))) = Some (ps ! i))
                 \<longleftrightarrow> (\<forall>i < length ps. pid (patient_objs h (ps ! i)) = int i + 1)"
    if "distinct ps \<and> (\<forall>a \<in> set ps. 1 \<le> pid (patient_objs h a))"
  proof
    assume L: "\<forall>i < length ps. dispatch_target h sa (pid (patient_objs h (ps ! i))) = Some (ps ! i)"
    show "\<forall>i < length ps. pid (patient_objs h (ps ! i)) = int i + 1"
    proof (intro allI impI)
      fix i assume i: "i < length ps"
      let ?j = "pid (patient_objs h (ps ! i))"
      from that i have j1: "1 \<le> ?j" by simp
      from L i have "dispatch_target h sa ?j = Some (ps ! i)" by simp
      with dt [OF j1] have lt: "?j - 1 < int (length ps)" and eq: "ps ! nat (?j - 1) = ps ! i"
        by (simp_all split: if_splits)
      from lt j1 have "nat (?j - 1) < length ps" by simp
      with that i eq have "nat (?j - 1) = i" by (simp add: nth_eq_iff_index_eq)
      with j1 show "?j = int i + 1" by simp
    qed
  next
    assume R: "\<forall>i < length ps. pid (patient_objs h (ps ! i)) = int i + 1"
    show "\<forall>i < length ps. dispatch_target h sa (pid (patient_objs h (ps ! i))) = Some (ps ! i)"
    proof (intro allI impI)
      fix i assume i: "i < length ps"
      with R have "pid (patient_objs h (ps ! i)) = int i + 1" by simp
      with i show "dispatch_target h sa (pid (patient_objs h (ps ! i))) = Some (ps ! i)"
        by (simp add: dt)
    qed
  qed
  from A B C show ?thesis
    unfolding Let_def ps_def [symmetric] target_def [symmetric] h'_def [symmetric] by blast
qed

text \<open>
  Two patients are spawned (ids 1 and 2) and the first exits: the roster is the second
  patient alone, at position 0 with id 2.
\<close>

definition shifted_heap :: heap where
  "shifted_heap =
     (let (h1, az1, p1) = spawn_patient empty_heap analyzer_init Critical;
          (h2, az2, p2) = spawn_patient h1 az1 Minor
      in remove_patient h2 az2 1)"

definition zero_metrics :: metrics where
  "zero_metrics = \<lparr>total_healing = 0, metrics_total_penalty = 0, patients_completed = 0,
     cooperation_events = 0, idle_time = 0\<rparr>"

lemma shifted_heap_simps:
  "patients (state_objs shifted_heap 0) = [Suc 0]"
  "patient_objs shifted_heap (Suc 0) = new_patient 2 Minor"
  by (simp_all add: shifted_heap_def spawn_patient_def remove_patient_def analyzer_init_def
      alloc_patient_def alloc_state_def upd_state_def Let_def empty_heap_def default_state_def
      new_patient_def)

lemma shifted_next_room: "next_room (patient_objs shifted_heap (Suc 0)) = Returned (Some ''TRIAGE'')"
  by (simp add: shifted_heap_simps next_room_def is_complete_def new_patient_def py_index_def)

theorem treat_action_dispatch_witness:
  "(1::int) \<le> 1 \<and> (1::int) \<le> 2
   \<and> patients (state_objs shifted_heap 0) = [1]
   \<and> pid (patient_objs shifted_heap 1) = 2
   \<and> next_room (patient_objs shifted_heap 1) = Returned (Some ''TRIAGE'')
   \<and> dispatch_target shifted_heap 0 1 = Some 1
   \<and> current_step (patient_objs
         (fst (execute_agent_action ROOM_POSITIONS shifted_heap 0 nurse (TREAT_PATIENT 1) zero_metrics)) 1)
       = current_step (patient_objs shifted_heap 1) + 1
   \<and> execute_agent_action ROOM_POSITIONS shifted_heap 0 nurse (TREAT_PATIENT 2) zero_metrics
       = (shifted_heap, zero_metrics, Returned 0)
   \<and> dispatch_target shifted_heap 0 (pid (patient_objs shifted_heap 1)) \<noteq> Some 1"
proof -
  have one: "(1::int) \<le> 1" and two: "(1::int) \<le> 2" by simp_all
  note t1 = treat_action_dispatch [OF one, where h = shifted_heap and sa = 0 and room = "''TRIAGE''"
      and positions = ROOM_POSITIONS and ag = nurse and m = zero_metrics]
  note t2 = treat_action_dispatch [OF two, where h = shifted_heap and sa = 0 and room = "''TRIAGE''"
      and positions = ROOM_POSITIONS and ag = nurse and m = zero_metrics]
  have pidv: "pid (patient_objs shifted_heap (Suc 0)) = 2"
    by (simp add: shifted_heap_simps new_patient_def)
  from t1 have a: "dispatch_target shifted_heap 0 1 = Some 1
      \<and> current_step (patient_objs
         (fst (execute_agent_action ROOM_POSITIONS shifted_heap 0 nurse (TREAT_PATIENT 1) zero_metrics)) 1)
       = current_step (patient_objs shifted_heap 1) + 1"
    by (simp (no_asm_use) add: Let_def shifted_heap_simps(1) shifted_next_room) blast
  from t2 have b: "execute_agent_action ROOM_POSITIONS shifted_heap 0 nurse (TREAT_PATIENT 2) zero_metrics
       = (shifted_heap, zero_metrics, Returned 0)"
    by (simp (no_asm_use) add: Let_def shifted_heap_simps(1)) blast
  from t1 have c: "dispatch_target shifted_heap 0 (pid (patient_objs shifted_heap 1)) \<noteq> Some 1"
    by (simp (no_asm_use) add: Let_def shifted_heap_simps(1) pidv) blast
  from a b c pidv shifted_next_room show ?thesis by (simp add: shifted_heap_simps(1))
qed

section \<open>A simulation of generated sequences returns\<close>

text \<open>
  The simulation loop removes patients from the roster of its clone and allocates
  nothing, so the roster stays within the allocated patient objects.
\<close>

text \<open>The roster of the state at \<open>sa\<close> holds allocated patient objects only.\<close>

definition roster_alloc :: "heap \<Rightarrow> addr \<Rightarrow> bool" where
  "roster_alloc h sa \<longleftrightarrow> (\<forall>a \<in> set (patients (state_objs h sa)). a < patient_next h)"

lemma upd_state_alloc:
  assumes "roster_alloc h sa"
    and "set (patients (f (state_objs h sa))) \<subseteq> set (patients (state_objs h sa))"
  shows "roster_alloc (upd_state h sa f) sa"
  using assms by (auto simp: roster_alloc_def upd_state_def)

lemma upd_patient_alloc: "roster_alloc h sa \<Longrightarrow> roster_alloc (upd_patient h a f) sa"
  by (simp add: roster_alloc_def upd_patient_def)

lemma waiting_loop_alloc:
  "roster_alloc (fst hp) sa \<Longrightarrow> roster_alloc (fst (waiting_loop d as hp)) sa"
proof (induction d as hp rule: waiting_loop.induct)
  case (1 d h penalty)
  then show ?case by simp
next
  case (2 d a as h penalty)
  show ?case
  proof (cases "being_treated_by (patient_objs h a) = []")
    case True
    let ?h1 = "upd_patient h a (\<lambda>p. p\<lparr>waiting_time := waiting_time p + d,
        health := max 0 (health p + WAITING_PENALTY (ptype (patient_objs h a)) * d)\<rparr>)"
    from "2.prems" have "roster_alloc ?h1 sa" by (simp add: upd_patient_alloc)
    with "2.IH"(1) [OF True refl] True show ?thesis by (simp add: Let_def)
  next
    case False
    with "2.IH"(2) "2.prems" show ?thesis by simp
  qed
qed

lemma apply_waiting_penalties_alloc:
  assumes "roster_alloc h sa"
  shows "roster_alloc (fst (apply_waiting_penalties h sa d)) sa"
proof -
  let ?r = "waiting_loop d (patients (state_objs h sa)) (h, 0)"
  have "roster_alloc (fst ?r) sa" using assms by (intro waiting_loop_alloc) simp
  then have "roster_alloc (upd_state (fst ?r) sa (\<lambda>s. s\<lparr>total_penalty := total_penalty s + snd ?r\<rparr>)) sa"
    by (intro upd_state_alloc) simp_all
  then show ?thesis by (simp add: apply_waiting_penalties_def split_def Let_def)
qed

lemma dead_loop_alloc:
  "roster_alloc (fst hm) sa \<Longrightarrow> roster_alloc (fst (dead_loop sa dead hm)) sa"
proof (induction sa dead hm rule: dead_loop.induct)
  case (1 sa h m)
  then show ?case by simp
next
  case (2 sa a dead h m)
  let ?h1 = "upd_state h sa (\<lambda>s. s\<lparr>total_penalty := total_penalty s - 50,
                              patients := list_remove h (patient_objs h a) (patients s)\<rparr>)"
  from "2.prems" have "roster_alloc ?h1 sa"
    by (intro upd_state_alloc) (simp_all add: set_list_remove)
  with "2.IH" show ?case by simp
qed

lemma remove_dead_alloc: "roster_alloc h sa \<Longrightarrow> roster_alloc (fst (remove_dead h sa m)) sa"
  by (simp add: remove_dead_def dead_loop_alloc)

lemma completed_loop_alloc:
  "roster_alloc (fst hm) sa \<Longrightarrow> roster_alloc (fst (completed_loop sa cs hm)) sa"
proof (induction sa cs hm rule: completed_loop.induct)
  case (1 sa h m)
  then show ?case by simp
next
  case (2 sa a cs h m)
  let ?h1 = "upd_state h sa (\<lambda>s. s\<lparr>patients := list_remove h (patient_objs h a) (patients s)\<rparr>)"
  from "2.prems" have "roster_alloc ?h1 sa"
    by (intro upd_state_alloc) (simp_all add: set_list_remove)
  with "2.IH" show ?case by simp
qed

lemma remove_completed_alloc:
  "roster_alloc h sa \<Longrightarrow> roster_alloc (fst (remove_completed h sa m)) sa"
  by (simp add: remove_completed_def completed_loop_alloc)

lemma treat_patient_alloc:
  assumes "roster_alloc h sa"
  shows "roster_alloc (fst (treat_patient h sa pa ag dur coop)) sa"
proof (cases "next_room (patient_objs h pa)")
  case (Raised e)
  with assms show ?thesis by (simp add: treat_patient_def)
next
  case (Returned ro)
  show ?thesis
  proof (cases ro)
    case None
    with Returned assms show ?thesis by (simp add: treat_patient_def)
  next
    case (Some room)
    have step: "roster_alloc (upd_state (upd_patient (upd_patient h pa f) pa g) sa k) sa"
      if "\<And>s. patients (k s) = patients s" for f g k
      using assms that by (intro upd_state_alloc upd_patient_alloc) simp_all
    have step2: "roster_alloc (upd_state (upd_state (upd_patient (upd_patient h pa f) pa g) sa k) sa k') sa"
      if "\<And>s. patients (k s) = patients s" "\<And>s. patients (k' s) = patients s" for f g k k'
      using assms that by (intro upd_state_alloc upd_patient_alloc) simp_all
    show ?thesis
      using Returned Some by (simp add: treat_patient_def Let_def step step2)
  qed
qed

lemma treat_at_alloc:
  assumes "roster_alloc h sa"
  shows "roster_alloc (fst (treat_at positions h sa ag pa room m)) sa"
proof -
  define busy where "busy = current_time (state_objs h sa)
      + room_distance positions (if ag = nurse then nurse_pos (state_objs h sa) else doctor_pos (state_objs h sa)) room
          / (if ag = nurse then nurse_speed else doctor_speed)
      + real_of_int (dict_get ROOM_TREATMENT_TIME room 10)"
  define h1 where "h1 = (if ag = nurse
       then upd_state h sa (\<lambda>s. s\<lparr>nurse_busy_until := busy, nurse_pos := room\<rparr>)
       else upd_state h sa (\<lambda>s. s\<lparr>doctor_busy_until := busy, doctor_pos := room\<rparr>))"
  define h2 where "h2 = upd_patient h1 pa (\<lambda>p. p\<lparr>being_treated_by := being_treated_by p @ [ag]\<rparr>)"
  have i1: "roster_alloc h1 sa"
    unfolding h1_def using assms by (auto intro!: upd_state_alloc)
  have i2: "roster_alloc h2 sa"
    unfolding h2_def using i1 by (rule upd_patient_alloc)
  obtain h3 r where tp: "treat_patient h2 sa pa ag (real_of_int (dict_get ROOM_TREATMENT_TIME room 10))
      (length (being_treated_by (patient_objs h pa)) > 0) = (h3, r)"
    by (cases "treat_patient h2 sa pa ag (real_of_int (dict_get ROOM_TREATMENT_TIME room 10))
      (length (being_treated_by (patient_objs h pa)) > 0)")
  have "roster_alloc (fst (h3, r)) sa"
    unfolding tp [symmetric] using i2 by (rule treat_patient_alloc)
  then have i3: "roster_alloc h3 sa" by simp
  then have i4: "roster_alloc (upd_patient h3 pa f) sa" for f
    by (rule upd_patient_alloc)
  show ?thesis
    using tp i3 i4
    unfolding treat_at_def Let_def busy_def [symmetric] h1_def [symmetric] h2_def [symmetric]
    by (cases r) simp_all
qed

lemma execute_agent_action_alloc:
  assumes "roster_alloc h sa"
  shows "roster_alloc (fst (execute_agent_action positions h sa ag act m)) sa"
proof (cases act)
  case (TREAT_PATIENT k)
  from treat_at_alloc [OF assms] assms show ?thesis
    by (simp add: TREAT_PATIENT execute_agent_action_def Let_def
        split: outcome.splits option.splits)
next
  case TREAT_PATIENT_malformed
  with assms show ?thesis by (simp add: execute_agent_action_def)
next
  case WAIT
  have "roster_alloc (upd_state h sa
          (\<lambda>s. if ag = nurse then s\<lparr>nurse_busy_until := current_time s + 1\<rparr>
                else s\<lparr>doctor_busy_until := current_time s + 1\<rparr>)) sa"
    using assms by (intro upd_state_alloc) simp_all
  with WAIT show ?thesis by (simp add: execute_agent_action_def)
next
  case other_action
  with assms show ?thesis by (simp add: execute_agent_action_def)
qed

lemma agent_turn_alloc:
  assumes "roster_alloc h sa"
  shows "roster_alloc (fst (agent_turn positions actions ag h sa idx m)) sa"
  using assms execute_agent_action_alloc [OF assms, of positions ag "actions ! idx" m]
  by (auto simp: agent_turn_def Let_def split: prod.splits outcome.splits)

lemma tick_alloc:
  assumes "roster_alloc h sa"
  shows "roster_alloc (fst (tick positions nurse_actions doctor_actions h sa ni di m)) sa"
proof -
  obtain h1 penalty where awp: "apply_waiting_penalties h sa 1 = (h1, penalty)"
    by (cases "apply_waiting_penalties h sa 1")
  let ?m1 = "m\<lparr>metrics_total_penalty := metrics_total_penalty m + \<bar>penalty\<bar>\<rparr>"
  obtain h2 m2 where rd: "remove_dead h1 sa ?m1 = (h2, m2)"
    by (cases "remove_dead h1 sa ?m1")
  obtain h3 o3 where nt: "agent_turn positions nurse_actions nurse h2 sa ni m2 = (h3, o3)"
    by (cases "agent_turn positions nurse_actions nurse h2 sa ni m2")
  have i1: "roster_alloc h1 sa"
    using apply_waiting_penalties_alloc [OF assms, of 1] awp by simp
  have i2: "roster_alloc h2 sa"
    using remove_dead_alloc [OF i1, of ?m1] rd by simp
  have i3: "roster_alloc h3 sa"
    using agent_turn_alloc [OF i2, of positions nurse_actions nurse ni m2] nt by simp
  show ?thesis
  proof (cases o3)
    case (Raised e)
    with awp rd nt i3 show ?thesis by (simp add: tick_def Let_def)
  next
    case (Returned r3)
    obtain ni' m3 where r3: "r3 = (ni', m3)" by (cases r3)
    obtain h4 o4 where dt: "agent_turn positions doctor_actions doctor h3 sa di m3 = (h4, o4)"
      by (cases "agent_turn positions doctor_actions doctor h3 sa di m3")
    have i4: "roster_alloc h4 sa"
      using agent_turn_alloc [OF i3, of positions doctor_actions doctor di m3] dt by simp
    show ?thesis
    proof (cases o4)
      case (Raised e)
      with awp rd nt Returned r3 dt i4 show ?thesis by (simp add: tick_def Let_def)
    next
      case r4: (Returned r4)
      obtain di' m4 where r4': "r4 = (di', m4)" by (cases r4)
      obtain h5 m5 where rc: "remove_completed h4 sa m4 = (h5, m5)"
        by (cases "remove_completed h4 sa m4")
      have i5: "roster_alloc h5 sa"
        using remove_completed_alloc [OF i4, of m4] rc by simp
      have "roster_alloc (upd_state h5 sa (\<lambda>s. s\<lparr>current_time := current_time s + 1\<rparr>)) sa"
        using i5 by (rule upd_state_alloc) simp
      with awp rd nt Returned r3 dt r4 r4' rc show ?thesis by (simp add: tick_def Let_def)
    qed
  qed
qed

text \<open>
  The actions that cannot raise: \<^verbatim>\<open>TREAT_PATIENT_k\<close> with \<open>k \<ge> 1\<close>, whose index \<open>k - 1\<close>
  is not negative, \<^verbatim>\<open>WAIT\<close>, and the strings that the simulator ignores.
\<close>

fun action_ok :: "sim_action \<Rightarrow> bool" where
  "action_ok (TREAT_PATIENT k) = (1 \<le> k)"
| "action_ok TREAT_PATIENT_malformed = False"
| "action_ok WAIT = True"
| "action_ok other_action = True"

lemma next_room_ok: "patient_ok p \<Longrightarrow> \<exists>r. next_room p = Returned r"
  by (auto simp: patient_ok_def next_room_def py_index_def Let_def)

lemma treat_patient_returns:
  "next_room (patient_objs h pa) = Returned r \<Longrightarrow>
     \<exists>x. snd (treat_patient h sa pa ag dur coop) = Returned x"
  by (cases r) (simp_all add: treat_patient_def Let_def)

lemma treat_at_returns:
  assumes "next_room (patient_objs h pa) = Returned r"
  shows "\<exists>x. snd (snd (treat_at positions h sa ag pa room m)) = Returned x"
proof -
  define busy where "busy = current_time (state_objs h sa)
      + room_distance positions (if ag = nurse then nurse_pos (state_objs h sa) else doctor_pos (state_objs h sa)) room
          / (if ag = nurse then nurse_speed else doctor_speed)
      + real_of_int (dict_get ROOM_TREATMENT_TIME room 10)"
  define h1 where "h1 = (if ag = nurse
       then upd_state h sa (\<lambda>s. s\<lparr>nurse_busy_until := busy, nurse_pos := room\<rparr>)
       else upd_state h sa (\<lambda>s. s\<lparr>doctor_busy_until := busy, doctor_pos := room\<rparr>))"
  define h2 where "h2 = upd_patient h1 pa (\<lambda>p. p\<lparr>being_treated_by := being_treated_by p @ [ag]\<rparr>)"
  have "patient_objs h1 = patient_objs h" by (simp add: h1_def upd_state_def)
  then have "patient_objs h2 pa = (patient_objs h pa)\<lparr>being_treated_by := being_treated_by (patient_objs h pa) @ [ag]\<rparr>"
    by (simp add: h2_def upd_patient_def)
  then have "next_room (patient_objs h2 pa) = next_room (patient_objs h pa)"
    by (simp add: next_room_def is_complete_def)
  with assms have nr: "next_room (patient_objs h2 pa) = Returned r" by simp
  obtain h3 r3 where tp: "treat_patient h2 sa pa ag (real_of_int (dict_get ROOM_TREATMENT_TIME room 10))
      (length (being_treated_by (patient_objs h pa)) > 0) = (h3, r3)"
    by (cases "treat_patient h2 sa pa ag (real_of_int (dict_get ROOM_TREATMENT_TIME room 10))
      (length (being_treated_by (patient_objs h pa)) > 0)")
  from treat_patient_returns [OF nr, of sa ag "real_of_int (dict_get ROOM_TREATMENT_TIME room 10)"
      "length (being_treated_by (patient_objs h pa)) > 0"] tp
  obtain x where "r3 = Returned x" by auto
  with tp show ?thesis
    unfolding treat_at_def Let_def busy_def [symmetric] h1_def [symmetric] h2_def [symmetric]
    by simp
qed

lemma execute_agent_action_returns:
  assumes "action_ok act" and "heap_ok h" and "roster_alloc h sa"
  shows "\<exists>x. snd (snd (execute_agent_action positions h sa ag act m)) = Returned x"
proof (cases act)
  case (TREAT_PATIENT k)
  with assms(1) have k: "0 \<le> k - 1" by simp
  show ?thesis
  proof (cases "k - 1 < int (length (patients (state_objs h sa)))")
    case False
    then show ?thesis by (simp add: TREAT_PATIENT execute_agent_action_def Let_def)
  next
    case True
    let ?pa = "patients (state_objs h sa) ! nat (k - 1)"
    from k True have idx: "py_index (patients (state_objs h sa)) (k - 1) = Some ?pa"
      by (rule py_index_nonneg)
    then have "?pa \<in> set (patients (state_objs h sa))" by (rule py_index_member)
    with assms(3) have "?pa < patient_next h" by (simp add: roster_alloc_def)
    with assms(2) have "patient_ok (patient_objs h ?pa)" by (simp add: heap_ok_def)
    then obtain r where nr: "next_room (patient_objs h ?pa) = Returned r"
      using next_room_ok by blast
    show ?thesis
    proof (cases r)
      case None
      with nr idx True show ?thesis
        by (simp add: TREAT_PATIENT execute_agent_action_def Let_def)
    next
      case (Some room)
      from treat_at_returns [OF nr, of positions sa ag room m] nr idx True Some
      show ?thesis
        by (simp add: TREAT_PATIENT execute_agent_action_def Let_def)
    qed
  qed
next
  case TREAT_PATIENT_malformed
  with assms(1) show ?thesis by simp
next
  case WAIT
  then show ?thesis by (simp add: execute_agent_action_def)
next
  case other_action
  then show ?thesis by (simp add: execute_agent_action_def)
qed

lemma agent_turn_returns:
  assumes "\<forall>a \<in> set actions. action_ok a" and "heap_ok h" and "roster_alloc h sa"
  shows "\<exists>x. snd (agent_turn positions actions ag h sa idx m) = Returned x"
proof (cases "idx < length actions")
  case False
  then show ?thesis by (simp add: agent_turn_def Let_def)
next
  case True
  with assms(1) have "action_ok (actions ! idx)" by simp
  from execute_agent_action_returns [OF this assms(2,3), of positions ag m]
  obtain x where x: "snd (snd (execute_agent_action positions h sa ag (actions ! idx) m)) = Returned x"
    by blast
  obtain h' m' r where e: "execute_agent_action positions h sa ag (actions ! idx) m = (h', m', r)"
    by (cases "execute_agent_action positions h sa ag (actions ! idx) m")
  with x have "r = Returned x" by simp
  with e show ?thesis by (simp add: agent_turn_def Let_def)
qed

lemma tick_returns:
  assumes "\<forall>a \<in> set nurse_actions. action_ok a" and "\<forall>a \<in> set doctor_actions. action_ok a"
    and "heap_ok h" and "roster_alloc h sa"
  shows "\<exists>x. snd (tick positions nurse_actions doctor_actions h sa ni di m) = Returned x"
proof -
  obtain h1 penalty where awp: "apply_waiting_penalties h sa 1 = (h1, penalty)"
    by (cases "apply_waiting_penalties h sa 1")
  let ?m1 = "m\<lparr>metrics_total_penalty := metrics_total_penalty m + \<bar>penalty\<bar>\<rparr>"
  obtain h2 m2 where rd: "remove_dead h1 sa ?m1 = (h2, m2)"
    by (cases "remove_dead h1 sa ?m1")
  obtain h3 o3 where nt: "agent_turn positions nurse_actions nurse h2 sa ni m2 = (h3, o3)"
    by (cases "agent_turn positions nurse_actions nurse h2 sa ni m2")
  have a1: "roster_alloc h1 sa"
    using apply_waiting_penalties_alloc [OF assms(4), of 1] awp by simp
  have a2: "roster_alloc h2 sa"
    using remove_dead_alloc [OF a1, of ?m1] rd by simp
  have a3: "roster_alloc h3 sa"
    using agent_turn_alloc [OF a2, of positions nurse_actions nurse ni m2] nt by simp
  have k1: "heap_ok h1"
    using apply_waiting_penalties_ok [of h 1 sa] assms(3) awp by simp
  have k2: "heap_ok h2"
    using remove_dead_ok [of h1 sa ?m1] k1 rd by simp
  have k3: "heap_ok h3"
    using agent_turn_ok [OF k2, of positions nurse_actions nurse sa ni m2] nt by simp
  from agent_turn_returns [OF assms(1) k2 a2, of positions nurse ni m2] nt
  obtain ni' m3 where o3: "o3 = Returned (ni', m3)" by auto
  obtain h4 o4 where dt: "agent_turn positions doctor_actions doctor h3 sa di m3 = (h4, o4)"
    by (cases "agent_turn positions doctor_actions doctor h3 sa di m3")
  from agent_turn_returns [OF assms(2) k3 a3, of positions doctor di m3] dt
  obtain di' m4 where o4: "o4 = Returned (di', m4)" by auto
  obtain h5 m5 where rc: "remove_completed h4 sa m4 = (h5, m5)"
    by (cases "remove_completed h4 sa m4")
  from awp rd nt o3 dt o4 rc show ?thesis by (simp add: tick_def Let_def)
qed

lemma sim_loop_returns:
  "\<forall>a \<in> set nurse_actions. action_ok a \<Longrightarrow> \<forall>a \<in> set doctor_actions. action_ok a \<Longrightarrow>
     heap_ok h \<Longrightarrow> roster_alloc h sa \<Longrightarrow>
     \<exists>x. snd (sim_loop positions T nurse_actions doctor_actions h sa ni di m) = Returned x"
proof (induction positions T nurse_actions doctor_actions h sa ni di m rule: sim_loop.induct)
  case (1 positions T nurse_actions doctor_actions h sa ni di m)
  show ?case
  proof (cases "current_time (state_objs h sa) < T \<and> patients (state_objs h sa) \<noteq> []")
    case False
    then show ?thesis by (subst sim_loop.simps) auto
  next
    case True
    obtain h' r where t: "tick positions nurse_actions doctor_actions h sa ni di m = (h', r)"
      by (cases "tick positions nurse_actions doctor_actions h sa ni di m")
    from tick_returns [OF "1.prems", of positions ni di m] t
    obtain x where r: "r = Returned x" by auto
    have k: "heap_ok h'"
      using tick_ok [OF "1.prems"(3), of positions nurse_actions doctor_actions sa ni di m] t by simp
    have a: "roster_alloc h' sa"
      using tick_alloc [OF "1.prems"(4), of positions nurse_actions doctor_actions ni di m] t by simp
    obtain ni' y where x: "(ni', y) = x" by (cases x) auto
    obtain di' m' where y: "(di', m') = y" by (cases y) auto
    from "1.IH" [OF True t [symmetric] r x y "1.prems"(1,2) k a]
    obtain z where "snd (sim_loop positions T nurse_actions doctor_actions h' sa ni' di' m') = Returned z"
      by blast
    with True t r x [symmetric] y [symmetric] show ?thesis
      by (subst sim_loop.simps) simp
  qed
qed

text \<open>
  The generator builds its actions from the ids of the roster, so for positive ids all of
  them are of this kind.
\<close>

definition actions_ok :: "sim_action list \<times> sim_action list \<Rightarrow> bool" where
  "actions_ok acc \<longleftrightarrow> (\<forall>a \<in> set (fst acc). action_ok a) \<and> (\<forall>a \<in> set (snd acc). action_ok a)"

lemma fold_actions_ok:
  assumes "\<And>x acc. x \<in> set xs \<Longrightarrow> actions_ok acc \<Longrightarrow> actions_ok (f x acc)"
    and "actions_ok acc"
  shows "actions_ok (fold f xs acc)"
  using assms by (induction xs arbitrary: acc) simp_all

lemma bodies_ok:
  assumes "1 \<le> pid p" and "actions_ok acc"
  shows "actions_ok (critical_first_body p acc)"
    and "actions_ok (both_body p acc)"
    and "actions_ok (split_by_type_body p acc)"
    and "actions_ok (distance_body (i, p) acc)"
    and "actions_ok (role_based_body p acc)"
  using assms
  by (auto simp: actions_ok_def critical_first_body_def both_body_def split_by_type_body_def
      distance_body_def role_based_body_def split_def Let_def)

lemma pad_with_wait_ok: "actions_ok acc \<Longrightarrow> actions_ok (pad_with_wait acc)"
  by (auto simp: actions_ok_def pad_with_wait_def split_def Let_def)

lemma generate_action_sequences_ok:
  assumes "\<forall>p \<in> set ps. 1 \<le> pid p"
  shows "actions_ok (generate_action_sequences ps strategy_name)"
proof -
  have e: "actions_ok ([], [])" by (simp add: actions_ok_def)
  have s: "\<forall>p \<in> set (sorted_by_urgency ps). 1 \<le> pid p"
    using assms by (simp add: sorted_by_urgency_def)
  have n: "\<forall>ip \<in> set (enumerate 0 ps). 1 \<le> pid (snd ip)"
    using assms by (auto simp: in_set_enumerate_eq)
  have 1: "actions_ok (fold critical_first_body (sorted_by_urgency ps) ([], []))"
    using s by (intro fold_actions_ok bodies_ok e) simp_all
  have 2: "actions_ok (fold both_body (sorted_by_urgency ps) ([], []))"
    using s by (intro fold_actions_ok bodies_ok e) simp_all
  have 3: "actions_ok (fold split_by_type_body ps ([], []))"
    using assms by (intro fold_actions_ok bodies_ok e) simp_all
  have 4: "actions_ok (fold both_body ps ([], []))"
    using assms by (intro fold_actions_ok bodies_ok e) simp_all
  have 5: "actions_ok (fold distance_body (enumerate 0 ps) ([], []))"
  proof (rule fold_actions_ok [OF _ e])
    fix x acc assume "x \<in> set (enumerate 0 ps)" and a: "actions_ok acc"
    with n have "1 \<le> pid (snd x)" by simp
    from bodies_ok(4) [OF this a, of "fst x"] show "actions_ok (distance_body x acc)" by simp
  qed
  have 6: "actions_ok (fold role_based_body ps ([], []))"
    using assms by (intro fold_actions_ok bodies_ok e) simp_all
  show ?thesis
    unfolding generate_action_sequences_def Let_def
    using 1 2 3 4 5 6 e by (simp add: pad_with_wait_ok)
qed

lemma frame_trans: "frame h0 h \<Longrightarrow> frame h h' \<Longrightarrow> frame h0 h'"
  by (auto simp: frame_def)

lemma frame_state:
  assumes "frame h h'" and "sa < state_next h" and "roster_alloc h sa"
  shows "sa < state_next h'" and "state_objs h' sa = state_objs h sa"
    and "roster h' sa = roster h sa" and "roster_alloc h' sa"
proof -
  from assms(1,2) show "sa < state_next h'" by (simp add: frame_def)
  from assms(1,2) show s: "state_objs h' sa = state_objs h sa" by (simp add: frame_def)
  have "map (patient_objs h') (patients (state_objs h sa))
      = map (patient_objs h) (patients (state_objs h sa))"
    using assms(1,3) by (intro map_cong) (auto simp: frame_def roster_alloc_def)
  with s show "roster h' sa = roster h sa" by (simp add: roster_def)
  from assms(1,3) s show "roster_alloc h' sa" by (auto simp: frame_def roster_alloc_def)
qed

lemma clone_patients_alloc:
  "clone_patients h as = (h2, as') \<Longrightarrow> \<forall>a \<in> set as'. a < patient_next h2"
proof (induction as arbitrary: h h2 as')
  case Nil
  then show ?case by simp
next
  case (Cons a as)
  obtain h1 a' where c1: "clone_patient h a = (h1, a')" by (cases "clone_patient h a")
  obtain h3 as'' where c2: "clone_patients h1 as = (h3, as'')" by (cases "clone_patients h1 as")
  from Cons.prems c1 c2 have eq: "h2 = h3" "as' = a' # as''" by (simp_all add: Let_def)
  from c1 have "a' < patient_next h1" by (auto simp: clone_patient_def alloc_patient_def)
  moreover from clone_patients_spec [OF c2] have "patient_next h1 \<le> patient_next h3" by simp
  ultimately show ?case using Cons.IH [OF c2] eq by auto
qed

lemma clone_state_alloc:
  assumes "clone_state h sa0 = (h1, sa)"
  shows "roster_alloc h1 sa"
proof -
  obtain h2 ps where cp: "clone_patients h (patients (state_objs h sa0)) = (h2, ps)"
    by (cases "clone_patients h (patients (state_objs h sa0))")
  from assms have "alloc_state h2 ((state_objs h sa0)\<lparr>patients := ps\<rparr>) = (h1, sa)"
    by (simp add: clone_state_def Let_def cp)
  then have "patient_next h1 = patient_next h2" "patients (state_objs h1 sa) = ps"
    by (auto simp: alloc_state_def)
  with clone_patients_alloc [OF cp] show ?thesis by (simp add: roster_alloc_def)
qed

lemma simulate_returns:
  assumes "actions_ok (nurse_actions, doctor_actions)" and "heap_ok h" and "roster_alloc h sa0"
  shows "\<exists>final_state m. snd (simulate_action_sequence positions h sa0 nurse_actions doctor_actions T)
           = Returned (final_state, m)"
proof -
  obtain h1 sa where cs: "clone_state h sa0 = (h1, sa)" by (cases "clone_state h sa0")
  let ?m = "\<lparr>total_healing = 0, metrics_total_penalty = 0, patients_completed = 0,
               cooperation_events = 0, idle_time = 0\<rparr>"
  from assms(3) have "\<forall>a \<in> set (patients (state_objs h sa0)). a < patient_next h"
    by (simp add: roster_alloc_def)
  from clone_state_ok [OF assms(2) this] cs have k: "heap_ok h1" by simp
  from cs have a: "roster_alloc h1 sa" by (rule clone_state_alloc)
  from assms(1) have n: "\<forall>a \<in> set nurse_actions. action_ok a"
    and d: "\<forall>a \<in> set doctor_actions. action_ok a" by (simp_all add: actions_ok_def)
  from sim_loop_returns [OF n d k a, of positions T 0 0 ?m]
  obtain x where x: "snd (sim_loop positions T nurse_actions doctor_actions h1 sa 0 0 ?m) = Returned x"
    by blast
  obtain h' r where l: "sim_loop positions T nurse_actions doctor_actions h1 sa 0 0 ?m = (h', r)"
    by (cases "sim_loop positions T nurse_actions doctor_actions h1 sa 0 0 ?m")
  with x have "r = Returned x" by simp
  with l show ?thesis
    unfolding simulate_action_sequence_def cs Let_def prod.case by simp
qed

text \<open>
  What an evaluation needs of the store and keeps: the scenario at \<open>sa\<close> is allocated,
  its roster is allocated and has positive ids, and every allocated patient is in range.
\<close>

definition scenario_ok :: "heap \<Rightarrow> addr \<Rightarrow> bool" where
  "scenario_ok h sa \<longleftrightarrow>
     sa < state_next h \<and> heap_ok h \<and> roster_alloc h sa \<and> (\<forall>p \<in> set (roster h sa). 1 \<le> pid p)"

lemma scenario_ok_frame:
  assumes "scenario_ok h sa" and "frame h h'" and "heap_ok h'"
  shows "scenario_ok h' sa"
  using assms frame_state [OF assms(2), of sa]
  by (simp add: scenario_ok_def)

lemma simulate_scenario:
  assumes "scenario_ok h sa"
  shows "\<exists>h' final_state m.
           simulate_action_sequence positions h sa
             (fst (generate_action_sequences (roster h sa) strategy_name))
             (snd (generate_action_sequences (roster h sa) strategy_name)) T
             = (h', Returned (final_state, m))
           \<and> frame h h' \<and> scenario_ok h' sa"
proof -
  let ?na = "fst (generate_action_sequences (roster h sa) strategy_name)"
  let ?da = "snd (generate_action_sequences (roster h sa) strategy_name)"
  let ?r = "simulate_action_sequence positions h sa ?na ?da T"
  from assms have ok: "actions_ok (?na, ?da)"
    using generate_action_sequences_ok [of "roster h sa" strategy_name]
    by (simp add: scenario_ok_def)
  from assms have k: "heap_ok h" and a: "roster_alloc h sa" by (simp_all add: scenario_ok_def)
  from simulate_returns [OF ok k a, of positions T]
  obtain fs m where r: "snd ?r = Returned (fs, m)" by blast
  have f: "frame h (fst ?r)" by (rule simulate_frame)
  from a have "\<forall>a \<in> set (patients (state_objs h sa)). a < patient_next h"
    by (simp add: roster_alloc_def)
  from simulate_ok [OF k this, of positions ?na ?da T] have k': "heap_ok (fst ?r)" .
  from scenario_ok_frame [OF assms f k'] have "scenario_ok (fst ?r) sa" .
  with r f show ?thesis by (cases ?r) auto
qed

lemma simulation_runs_returns:
  "scenario_ok h sa \<Longrightarrow>
     \<exists>h' total. simulation_runs positions sa strategy_name n h total_rew = (h', Returned total)
        \<and> frame h h' \<and> scenario_ok h' sa"
proof (induction n arbitrary: h total_rew)
  case 0
  then show ?case by (simp add: frame_refl)
next
  case (Suc n)
  from simulate_scenario [OF Suc.prems, of positions strategy_name 100]
  obtain h1 fs m where s: "simulate_action_sequence positions h sa
             (fst (generate_action_sequences (roster h sa) strategy_name))
             (snd (generate_action_sequences (roster h sa) strategy_name)) 100
             = (h1, Returned (fs, m))"
    and f1: "frame h h1" and ok1: "scenario_ok h1 sa" by blast
  from Suc.IH [OF ok1, of "total_rew + simulation_value m"]
  obtain h' total where r: "simulation_runs positions sa strategy_name n h1 (total_rew + simulation_value m)
        = (h', Returned total)" and f: "frame h1 h'" and ok: "scenario_ok h' sa" by blast
  from s r have "simulation_runs positions sa strategy_name (Suc n) h total_rew = (h', Returned total)"
    by (simp add: split_def Let_def)
  with frame_trans [OF f1 f] ok show ?case by blast
qed

lemma evaluate_loop_returns:
  "scenario_ok h sa \<Longrightarrow> num_simulations \<noteq> 0 \<Longrightarrow> iterations + 1 \<noteq> 0 \<Longrightarrow>
     distinct (map fst svals @ names) \<Longrightarrow>
     \<exists>h' d. evaluate_loop positions sa num_simulations iterations noise names h svals = (h', Returned d)
        \<and> map fst d = map fst svals @ names \<and> frame h h' \<and> scenario_ok h' sa"
proof (induction names arbitrary: h svals)
  case Nil
  then show ?case by (simp add: frame_refl)
next
  case (Cons name names)
  from simulation_runs_returns [OF Cons.prems(1), of positions name num_simulations 0]
  obtain h1 total where r: "simulation_runs positions sa name num_simulations h 0 = (h1, Returned total)"
    and f1: "frame h h1" and ok1: "scenario_ok h1 sa" by blast
  let ?sv = "dict_set svals name (total / real num_simulations + noise name)"
  from Cons.prems(4) have new: "name \<notin> fst ` set svals" by auto
  then have keys: "map fst ?sv = map fst svals @ [name]" by (simp add: keys_dict_set)
  with Cons.prems(4) have d: "distinct (map fst ?sv @ names)" by simp
  from Cons.IH [OF ok1 Cons.prems(2,3) d]
  obtain h' d' where e: "evaluate_loop positions sa num_simulations iterations noise names h1 ?sv
        = (h', Returned d')"
    and k: "map fst d' = map fst ?sv @ names" and f: "frame h1 h'" and ok: "scenario_ok h' sa"
    by blast
  from r e Cons.prems(2,3)
  have "evaluate_loop positions sa num_simulations iterations noise (name # names) h svals
      = (h', Returned d')" by (simp add: Let_def)
  with k keys frame_trans [OF f1 f] ok show ?case by simp
qed

lemma evaluate_all_strategies_returns:
  assumes "scenario_ok h sa" and "0 \<le> total_iterations c"
  shows "\<exists>h' d. evaluate_all_strategies positions h c sa 5 noise = (h', Returned d)
        \<and> map fst d = STRATEGY_NAMES \<and> frame h h' \<and> scenario_ok h' sa"
proof -
  from assms(2) have i: "total_iterations c + 1 \<noteq> 0" by simp
  have n: "(5::nat) \<noteq> 0" by simp
  have d: "distinct (map fst ([] :: (strategy \<times> real) list) @ STRATEGY_NAMES)"
    by (simp add: distinct_STRATEGY_NAMES)
  from evaluate_loop_returns [OF assms(1) n i d, of positions noise]
  show ?thesis by (simp add: evaluate_all_strategies_def)
qed

section \<open>Planning on an empty roster (claim C9)\<close>

text \<open>
  Claim C9. When there is no scenario or the roster of the current scenario is empty,
  \<^verbatim>\<open>analyze_and_plan\<close> returns the IDLE assignment with empty nurse and doctor command
  lists and expected reward 0, and the store and the analyzer after the call are those
  before it: the learner (regret sums, probability sums, iteration counter and
  histories) is unchanged, whatever the random source would have produced.
\<close>

theorem idle_on_empty_roster:
  "current_state az = None \<or> (current_state az = Some sa \<and> patients (state_objs h sa) = []) \<Longrightarrow>
     analyze_and_plan positions h az noise_of selected_of =
       (h, az, Returned
          \<lparr>success = True, plan_strategy = IDLE, plan_description = ''No patients'',
           all_strategy_values = [], nurse_plan = [], doctor_plan = [],
           learning_stats = get_statistics (cfr az), expected_reward = 0\<rparr>)"
  by (auto simp: analyze_and_plan_def)

text \<open>A new analyzer has no scenario; its plan is the IDLE bundle and its learner stays new.\<close>

theorem idle_on_empty_roster_witness:
  "current_state analyzer_init = None
   \<and> analyze_and_plan ROOM_POSITIONS empty_heap analyzer_init (\<lambda>_ _. 0) (\<lambda>_. PARALLEL_CRITICAL) =
       (empty_heap, analyzer_init, Returned
          \<lparr>success = True, plan_strategy = IDLE, plan_description = ''No patients'',
           all_strategy_values = [], nurse_plan = [], doctor_plan = [],
           learning_stats = get_statistics cfr_init, expected_reward = 0\<rparr>)
   \<and> cfr analyzer_init = cfr_init"
proof -
  have n: "current_state analyzer_init = None" by (simp add: analyzer_init_def)
  then have "current_state analyzer_init = None
      \<or> (current_state analyzer_init = Some 0 \<and> patients (state_objs empty_heap 0) = [])" by simp
  from idle_on_empty_roster [OF this, of ROOM_POSITIONS "\<lambda>_ _. 0" "\<lambda>_. PARALLEL_CRITICAL"] n
  show ?thesis by (simp add: analyzer_init_def)
qed

section \<open>The strategy returned by a plan (claim C1)\<close>

text \<open>
  \<^verbatim>\<open>max(d, key=d.get)\<close> returns the first key of \<open>d\<close>, in the dict's order, whose value is
  maximal: every entry before it is strictly smaller, every entry after it is at most
  equal.
\<close>

lemma py_max_key_from_first:
  "\<forall>(k, w) \<in> set pre. w < bv \<Longrightarrow> \<forall>(k, w) \<in> set mid. w \<le> bv \<Longrightarrow>
     \<exists>pre' v post. pre @ (b, bv) # mid @ d = pre' @ (py_max_key_from b bv d, v) # post
        \<and> (\<forall>(k, w) \<in> set pre'. w < v) \<and> (\<forall>(k, w) \<in> set post. w \<le> v)"
proof (induction d arbitrary: pre b bv mid)
  case Nil
  then show ?case by auto
next
  case (Cons kv d)
  obtain k v where kv: "kv = (k, v)" by (cases kv)
  show ?case
  proof (cases "v > bv")
    case True
    have p: "\<forall>(k', w) \<in> set (pre @ (b, bv) # mid). w < v"
      using Cons.prems True by fastforce
    have m: "\<forall>(k', w) \<in> set []. w \<le> v" by simp
    from Cons.IH [OF p m, of k] True kv show ?thesis by simp
  next
    case False
    have m: "\<forall>(k', w) \<in> set (mid @ [(k, v)]). w \<le> bv"
      using Cons.prems(2) False by auto
    from Cons.IH [OF Cons.prems(1) m, of b] False kv show ?thesis by simp
  qed
qed

lemma py_max_key_first:
  assumes "d \<noteq> []"
  shows "\<exists>b pre v post. py_max_key d = Some b \<and> d = pre @ (b, v) # post
        \<and> (\<forall>(k, w) \<in> set pre. w < v) \<and> (\<forall>(k, w) \<in> set post. w \<le> v)"
proof -
  from assms obtain k v d' where d: "d = (k, v) # d'" by (cases d) auto
  from py_max_key_from_first [of "[]" v "[]" k d'] d show ?thesis by auto
qed

text \<open>A round keeps the learner reachable and records an iteration.\<close>

lemma plan_round_reachable:
  assumes "reachable_cfr c" and "map fst svals = STRATEGY_NAMES"
  shows "reachable_cfr (plan_round c svals selected)"
proof -
  let ?c1 = "fst (get_strategy_probabilities c STRATEGY_NAMES)"
  let ?c2 = "fst (get_strategy_probabilities ?c1 STRATEGY_NAMES)"
  let ?c3 = "update_regrets ?c2 svals selected"
  have r3: "reachable_cfr ?c3"
    using assms by (intro reach_update reach_policy)
  have "plan_round c svals selected =
      record_iteration ?c3 svals selected (snd (get_strategy_probabilities c STRATEGY_NAMES))
        (dict_get svals selected 0)"
    by (simp add: plan_round_def Let_def split_def assms(2))
  with reach_record [OF r3 assms(2), of selected c "dict_get svals selected 0"]
  show ?thesis by simp
qed

lemma plan_round_history: "iteration_history (plan_round c svals selected) \<noteq> []"
  by (simp add: plan_round_def Let_def split_def record_iteration_def)

lemma plan_round_iterations:
  "svals \<noteq> [] \<Longrightarrow> total_iterations (plan_round c svals selected) = total_iterations c + 1"
  by (simp add: plan_round_def Let_def split_def record_iteration_def update_regrets_fields gsp_fst)

text \<open>
  What the rounds keep of the learner: it is reachable and its iteration counter is not
  negative.
\<close>

definition learner_ok :: "strategy CFRRegretMinimizer \<Rightarrow> bool" where
  "learner_ok c \<longleftrightarrow> reachable_cfr c \<and> 0 \<le> total_iterations c"

lemma plan_round_learner_ok:
  assumes "learner_ok c" and "map fst svals = STRATEGY_NAMES"
  shows "learner_ok (plan_round c svals selected)"
proof -
  from assms(2) have "svals \<noteq> []" by (auto simp: STRATEGY_NAMES_eq)
  with assms plan_round_reachable [of c svals selected] show ?thesis
    by (simp add: learner_ok_def plan_round_iterations)
qed

lemma plan_rounds_returns:
  "scenario_ok h sa \<Longrightarrow> learner_ok c \<Longrightarrow>
     \<exists>h' c' sv. plan_rounds positions sa noise_of selected_of is h c svals = (h', c', Returned sv)
        \<and> learner_ok c' \<and> frame h h' \<and> scenario_ok h' sa
        \<and> (is \<noteq> [] \<longrightarrow> iteration_history c' \<noteq> [])"
proof (induction "is" arbitrary: h c svals)
  case Nil
  then show ?case by (simp add: frame_refl)
next
  case (Cons i "is")
  from Cons.prems(2) have it: "0 \<le> total_iterations c" by (simp add: learner_ok_def)
  from evaluate_all_strategies_returns [OF Cons.prems(1) it, of positions "noise_of i"]
  obtain h1 d where e: "evaluate_all_strategies positions h c sa 5 (noise_of i) = (h1, Returned d)"
    and k: "map fst d = STRATEGY_NAMES" and f1: "frame h h1" and ok1: "scenario_ok h1 sa"
    by blast
  let ?c1 = "plan_round c d (selected_of i)"
  from plan_round_learner_ok [OF Cons.prems(2) k] have l1: "learner_ok ?c1" .
  from Cons.IH [OF ok1 l1, of d]
  obtain h' c' sv where r: "plan_rounds positions sa noise_of selected_of is h1 ?c1 d = (h', c', Returned sv)"
    and l: "learner_ok c'" and f: "frame h1 h'" and ok: "scenario_ok h' sa"
    and hist: "is \<noteq> [] \<longrightarrow> iteration_history c' \<noteq> []" by blast
  have h0: "iteration_history c' \<noteq> []"
  proof (cases "is")
    case Nil
    with r show ?thesis by (auto simp: plan_round_history)
  next
    case (Cons j js)
    with hist show ?thesis by simp
  qed
  from e r have "plan_rounds positions sa noise_of selected_of (i # is) h c svals = (h', c', Returned sv)"
    by simp
  with l frame_trans [OF f1 f] ok h0 show ?case by blast
qed

lemma reachable_iterations: "reachable_cfr c \<Longrightarrow> 0 \<le> total_iterations c"
proof (induction rule: reachable_cfr.induct)
  case reach_init
  show ?case by (simp add: cfr_init_def)
next
  case (reach_policy c)
  then show ?case by (simp add: gsp_fst)
next
  case (reach_update c svals selected)
  from reach_update(2) have "svals \<noteq> []" by (auto simp: STRATEGY_NAMES_eq)
  with reach_update(3) show ?case by (simp add: update_regrets_fields)
next
  case (reach_record c svals selected c0 rew)
  then show ?case by (simp add: record_iteration_def Let_def)
qed

text \<open>
  Claim C1, as amended. The scenario is as the service builds it: its state object and
  the patients of its roster are allocated, every allocated patient is in range, and the
  ids of the roster are positive; the learner is reachable. Then, on a non-empty roster
  and for every outcome of the random draws, \<^verbatim>\<open>analyze_and_plan\<close> runs its 20 learning
  rounds without raising and returns a bundle; the average policy is a dict over the
  catalog in the catalog's order, and the returned strategy is the first strategy of
  that order whose time-averaged probability is maximal: every strategy before it has a
  strictly smaller probability, every strategy after it has at most the same. Ties are
  thus broken by the catalog order; the values of the latest round are not consulted.
\<close>

theorem plan_returns_first_argmax:
  assumes "reachable_cfr (cfr az)" and "current_state az = Some sa" and "sa < state_next h"
    and "heap_ok h" and "\<forall>a \<in> set (patients (state_objs h sa)). a < patient_next h"
    and "\<forall>p \<in> set (roster h sa). 1 \<le> pid p"
    and "patients (state_objs h sa) \<noteq> []"
  shows "\<exists>h' az' res b pre v post.
           analyze_and_plan positions h az noise_of selected_of = (h', az', Returned res)
           \<and> plan_strategy res = Chosen b
           \<and> map fst (get_average_strategy (cfr az')) = STRATEGY_NAMES
           \<and> get_average_strategy (cfr az') = pre @ (b, v) # post
           \<and> (\<forall>(k, w) \<in> set pre. w < v) \<and> (\<forall>(k, w) \<in> set post. w \<le> v)"
proof -
  from assms(3-6) have ok: "scenario_ok h sa" by (simp add: scenario_ok_def roster_alloc_def)
  from assms(1) have l: "learner_ok (cfr az)" by (simp add: learner_ok_def reachable_iterations)
  have ne: "[0..<NUM_CFR_ITERATIONS] \<noteq> []" by (simp add: NUM_CFR_ITERATIONS_def)
  from plan_rounds_returns [OF ok l, of positions noise_of selected_of "[0..<NUM_CFR_ITERATIONS]" "[]"] ne
  obtain h' c sv where r: "plan_rounds positions sa noise_of selected_of [0..<NUM_CFR_ITERATIONS] h (cfr az) []
        = (h', c, Returned sv)"
    and l': "learner_ok c" and hist: "iteration_history c \<noteq> []" by blast
  from l' have inv: "sum_inv c" by (simp add: learner_ok_def reachable_sum_inv)
  from average_of_inv(1) [OF inv hist]
  have keys: "map fst (get_average_strategy c) = STRATEGY_NAMES" .
  then have ane: "get_average_strategy c \<noteq> []" by (auto simp: STRATEGY_NAMES_eq)
  from py_max_key_first [OF ane] obtain b pre v post where
    b: "py_max_key (get_average_strategy c) = Some b"
    and dec: "get_average_strategy c = pre @ (b, v) # post"
    and lt: "\<forall>(k, w) \<in> set pre. w < v" and le: "\<forall>(k, w) \<in> set post. w \<le> v"
    by blast
  obtain ncs dcs where g: "generate_unity_commands (roster h' sa) b = (ncs, dcs)"
    by (cases "generate_unity_commands (roster h' sa) b")
  have "analyze_and_plan positions h az noise_of selected_of =
      (h', az\<lparr>cfr := c\<rparr>, Returned
         \<lparr>success = True, plan_strategy = Chosen b,
          plan_description = description (strategy_info_of b),
          all_strategy_values = sv, nurse_plan = ncs, doctor_plan = dcs,
          learning_stats = get_statistics c,
          expected_reward = dict_get sv b 0\<rparr>)"
    using assms(2,7) r ane b g by (simp add: analyze_and_plan_def Let_def)
  with keys dec lt le show ?thesis by fastforce
qed

text \<open>One spawned Critical patient, a new learner, no noise.\<close>

lemma spawned_roster: "roster spawned_heap 0 = [new_patient 1 Critical]"
  by (simp add: roster_def spawned_heap_eq)

lemma spawned_scenario:
  "reachable_cfr (cfr spawned_analyzer)" "current_state spawned_analyzer = Some 0"
  "0 < state_next spawned_heap" "heap_ok spawned_heap"
  "patients (state_objs spawned_heap 0) = [0]" "patient_next spawned_heap = 1"
  "map pid (roster spawned_heap 0) = [1]"
proof -
  show "reachable_cfr (cfr spawned_analyzer)" by (simp add: spawned_heap_eq reach_init)
  show "heap_ok spawned_heap" by (simp add: spawned_heap_eq heap_ok_def new_patient_ok)
  show "map pid (roster spawned_heap 0) = [1]" by (simp add: spawned_roster new_patient_def)
qed (simp_all add: spawned_heap_eq)

theorem plan_returns_first_argmax_witness:
  "reachable_cfr (cfr spawned_analyzer) \<and> current_state spawned_analyzer = Some 0
   \<and> 0 < state_next spawned_heap \<and> heap_ok spawned_heap
   \<and> patients (state_objs spawned_heap 0) = [0] \<and> patient_next spawned_heap = 1
   \<and> map pid (roster spawned_heap 0) = [1]
   \<and> (\<exists>h' az' res b pre v post.
         analyze_and_plan ROOM_POSITIONS spawned_heap spawned_analyzer (\<lambda>_ _. 0) (\<lambda>_. NEAREST_FIRST)
           = (h', az', Returned res)
         \<and> plan_strategy res = Chosen b
         \<and> map fst (get_average_strategy (cfr az')) = STRATEGY_NAMES
         \<and> get_average_strategy (cfr az') = pre @ (b, v) # post
         \<and> (\<forall>(k, w) \<in> set pre. w < v) \<and> (\<forall>(k, w) \<in> set post. w \<le> v))"
proof -
  have a: "\<forall>a \<in> set (patients (state_objs spawned_heap 0)). a < patient_next spawned_heap"
    by (simp add: spawned_scenario)
  have p: "\<forall>p \<in> set (roster spawned_heap 0). 1 \<le> pid p"
    by (simp add: spawned_roster new_patient_def)
  have n: "patients (state_objs spawned_heap 0) \<noteq> []" by (simp add: spawned_scenario)
  from plan_returns_first_argmax [OF spawned_scenario(1-4) a p n,
      of ROOM_POSITIONS "\<lambda>_ _. 0" "\<lambda>_. NEAREST_FIRST"] spawned_scenario
  show ?thesis by simp
qed

text \<open>
  A round in which no strategy has positive regret plays the uniform policy, so it adds
  \<open>1/6\<close> to every probability sum; a round in which all strategies have value 0 leaves
  the regret sums as they are.
\<close>

lemma plan_round_fields:
  "strategy_sum (plan_round c svals selected) =
     add_strategy_sum (snd (get_strategy_probabilities c (map fst svals))) (strategy_sum c)"
  "dict_get (regret_sum (plan_round c svals selected)) k 0 =
     dict_get (regret_sum (update_regrets
        (fst (get_strategy_probabilities (fst (get_strategy_probabilities c (map fst svals))) (map fst svals)))
        svals selected)) k 0"
  by (simp_all add: plan_round_def Let_def split_def record_iteration_def
      update_regrets_strategy_sum gsp_fst)

lemma no_regret_policy:
  assumes "\<forall>s. dict_get (regret_sum c) s 0 \<le> 0"
  shows "snd (get_strategy_probabilities c STRATEGY_NAMES) = map (\<lambda>s. (s, 1 / 6)) STRATEGY_NAMES"
  using gsp_uniform [OF distinct_STRATEGY_NAMES, of c] assms
  by (simp add: length_STRATEGY_NAMES)

lemma plan_round_sum_flat:
  assumes "\<forall>s. dict_get (regret_sum c) s 0 \<le> 0" and "map fst svals = STRATEGY_NAMES"
  shows "dict_get (strategy_sum (plan_round c svals selected)) k 0 = dict_get (strategy_sum c) k 0 + 1 / 6"
proof -
  let ?P = "map (\<lambda>s. (s, 1 / 6 :: real)) STRATEGY_NAMES"
  have d: "distinct (map fst ?P)" by (simp add: comp_def distinct_STRATEGY_NAMES)
  have "k \<in> set STRATEGY_NAMES" by (simp add: set_STRATEGY_NAMES)
  then have "map_of ?P k = Some (1 / 6)" by (simp add: map_of_map_restrict)
  then have g: "dict_get ?P k 0 = 1 / 6" by (simp add: dict_get_def)
  show ?thesis
    unfolding plan_round_fields(1) assms(2) no_regret_policy [OF assms(1)]
      add_strategy_sum_get sum_key_is_get [OF d] g ..
qed

definition zero_values :: "(strategy \<times> real) list" where
  "zero_values = map (\<lambda>s. (s, 0)) STRATEGY_NAMES"

lemma zero_values_keys: "map fst zero_values = STRATEGY_NAMES"
  by (simp add: zero_values_def comp_def)

lemma plan_round_zero_regret:
  "dict_get (regret_sum (plan_round c zero_values selected)) k 0 = dict_get (regret_sum c) k 0"
proof -
  have ne: "zero_values \<noteq> []" by (simp add: zero_values_def STRATEGY_NAMES_eq)
  have z: "dict_get zero_values s 0 = 0" for s
    by (cases "map_of zero_values s") (auto simp: dict_get_def zero_values_def dest!: map_of_SomeD)
  have V: "node_value_of P zero_values (map fst zero_values) = 0" for P
    by (simp add: node_value_of_def z comp_def)
  have "(\<Sum>(s, v)\<leftarrow>zero_values. if s = k then v - (0::real) else 0) = 0"
    by (simp add: zero_values_def comp_def STRATEGY_NAMES_eq)
  then show ?thesis
    unfolding plan_round_fields(2) update_regrets_fields(4) [OF ne] V
    by (simp add: gsp_regret_get)
qed

text \<open>
  The value dict of a last round in which the strategies differ; the first strategy of
  the catalog has the lowest value and COOPERATIVE_ALL the highest.
\<close>

definition final_values :: "(strategy \<times> real) list" where
  "final_values = [(PARALLEL_CRITICAL, 0), (SEQUENTIAL_SEVERITY, 1),
     (DOCTOR_CRITICAL_NURSE_OTHERS, 2), (COOPERATIVE_ALL, 5), (NEAREST_FIRST, 3),
     (NURSE_TRIAGE_DOCTOR_TREAT, 4)]"

text \<open>Nineteen rounds in which every strategy has value 0, then \<open>final_values\<close>.\<close>

definition tie_values :: "nat \<Rightarrow> (strategy \<times> real) list" where
  "tie_values i = (if i < 19 then zero_values else final_values)"

lemma final_values_keys: "map fst final_values = STRATEGY_NAMES"
  by (simp add: final_values_def STRATEGY_NAMES_eq)

lemma tie_values_keys: "map fst (tie_values i) = STRATEGY_NAMES"
  by (simp add: tie_values_def zero_values_keys final_values_keys)

text \<open>
  The store and the learner after \<open>i\<close> rounds whose value dicts are \<open>tie_values\<close>, from one
  spawned Critical patient and a new learner; the store that an evaluation leaves does
  not depend on the noise.
\<close>

fun tie_run :: "nat \<Rightarrow> heap \<times> strategy CFRRegretMinimizer" where
  "tie_run 0 = (spawned_heap, cfr_init)"
| "tie_run (Suc i) =
     (case tie_run i of
        (h, c) \<Rightarrow> (fst (evaluate_all_strategies ROOM_POSITIONS h c 0 5 (\<lambda>_. 0)),
                   plan_round c (tie_values i) PARALLEL_CRITICAL))"

text \<open>
  The draws that give round \<open>i\<close> the value dict \<open>tie_values i\<close>: for every strategy, the
  value wanted minus the average of its five simulations.
\<close>

definition tie_noise :: "nat \<Rightarrow> strategy \<Rightarrow> real" where
  "tie_noise i k =
     (case tie_run i of
        (h, c) \<Rightarrow>
          (case snd (evaluate_all_strategies ROOM_POSITIONS h c 0 5 (\<lambda>_. 0)) of
             Returned d \<Rightarrow> dict_get (tie_values i) k 0 - dict_get d k 0
           | Raised e \<Rightarrow> 0))"

lemma evaluate_loop_noise:
  "evaluate_loop positions sa n it noise0 names h acc0 = (h', Returned d0) \<Longrightarrow>
     map fst acc = map fst acc0 \<Longrightarrow>
     \<exists>d. evaluate_loop positions sa n it noise names h acc = (h', Returned d)
        \<and> map fst d = map fst d0
        \<and> (\<forall>k. dict_get d k 0 - dict_get d0 k 0 =
                 (if k \<in> set names then noise k - noise0 k
                  else dict_get acc k 0 - dict_get acc0 k 0))"
proof (induction names arbitrary: h acc acc0)
  case Nil
  then show ?case by simp
next
  case (Cons name names)
  obtain h1 r where s: "simulation_runs positions sa name n h 0 = (h1, r)"
    by (cases "simulation_runs positions sa name n h 0")
  from Cons.prems(1) s obtain total where r: "r = Returned total"
    and nz: "\<not> (n = 0 \<or> it + 1 = 0)"
    and e0: "evaluate_loop positions sa n it noise0 names h1
               (dict_set acc0 name (total / real n + noise0 name)) = (h', Returned d0)"
    by (cases r) (auto simp: Let_def split: if_splits)
  let ?u = "dict_set acc name (total / real n + noise name)"
  let ?w = "dict_set acc0 name (total / real n + noise0 name)"
  from Cons.prems(2) have "fst ` set acc = fst ` set acc0"
    by (metis list.set_map)
  with Cons.prems(2) have keys: "map fst ?u = map fst ?w" by (simp add: keys_dict_set)
  from Cons.IH [OF e0 keys]
  obtain d where e: "evaluate_loop positions sa n it noise names h1 ?u = (h', Returned d)"
    and k: "map fst d = map fst d0"
    and v: "\<forall>k. dict_get d k 0 - dict_get d0 k 0 =
                 (if k \<in> set names then noise k - noise0 k
                  else dict_get ?u k 0 - dict_get ?w k 0)" by blast
  from s r nz e have "evaluate_loop positions sa n it noise (name # names) h acc = (h', Returned d)"
    by (simp add: Let_def)
  moreover from v have "\<forall>k. dict_get d k 0 - dict_get d0 k 0 =
                 (if k \<in> set (name # names) then noise k - noise0 k
                  else dict_get acc k 0 - dict_get acc0 k 0)"
    by (auto simp: dict_get_dict_set)
  ultimately show ?case using k by blast
qed

lemma dict_eqI:
  assumes "map fst d = map fst d'" and "distinct (map fst d)"
    and "\<forall>k. dict_get d k (0::real) = dict_get d' k 0"
  shows "d = d'"
proof -
  from assms(1,2) have dd: "distinct (map fst d')" by simp
  have "map snd d = map (\<lambda>k. dict_get d k 0) (map fst d)"
    using assms(2) by (rule dict_values_via_get)
  also have "\<dots> = map (\<lambda>k. dict_get d' k 0) (map fst d')" using assms(1,3) by simp
  also have "\<dots> = map snd d'" using dd by (rule dict_values_via_get [symmetric])
  finally have "zip (map fst d) (map snd d) = zip (map fst d') (map snd d')"
    using assms(1) by simp
  then show ?thesis by (simp add: zip_map_fst_snd)
qed

lemma spawned_scenario_ok: "scenario_ok spawned_heap 0"
proof -
  have "\<forall>p \<in> set (roster spawned_heap 0). 1 \<le> pid p"
    by (simp add: spawned_roster new_patient_def)
  then show ?thesis
    by (simp add: scenario_ok_def roster_alloc_def spawned_scenario)
qed

lemma tie_run_ok: "scenario_ok (fst (tie_run i)) 0 \<and> learner_ok (snd (tie_run i))"
proof (induction i)
  case 0
  have "total_iterations (cfr_init :: strategy CFRRegretMinimizer) = 0" by (simp add: cfr_init_def)
  then show ?case by (simp add: spawned_scenario_ok learner_ok_def reach_init)
next
  case (Suc i)
  obtain h c where t: "tie_run i = (h, c)" by (cases "tie_run i")
  with Suc have ok: "scenario_ok h 0" and l: "learner_ok c" by simp_all
  from l have it: "0 \<le> total_iterations c" by (simp add: learner_ok_def)
  from evaluate_all_strategies_returns [OF ok it, of ROOM_POSITIONS "\<lambda>_. 0"]
  have "scenario_ok (fst (evaluate_all_strategies ROOM_POSITIONS h c 0 5 (\<lambda>_. 0))) 0" by auto
  with plan_round_learner_ok [OF l tie_values_keys, of i PARALLEL_CRITICAL] t
  show ?case by simp
qed

lemma tie_round:
  assumes "tie_run i = (h, c)"
  shows "evaluate_all_strategies ROOM_POSITIONS h c 0 5 (tie_noise i)
           = (fst (tie_run (Suc i)), Returned (tie_values i))"
proof -
  from tie_run_ok [of i] assms have ok: "scenario_ok h 0" and l: "learner_ok c" by simp_all
  from l have it: "0 \<le> total_iterations c" by (simp add: learner_ok_def)
  from evaluate_all_strategies_returns [OF ok it, of ROOM_POSITIONS "\<lambda>_. 0"]
  obtain h1 d0 where e0: "evaluate_all_strategies ROOM_POSITIONS h c 0 5 (\<lambda>_. 0) = (h1, Returned d0)"
    and k0: "map fst d0 = STRATEGY_NAMES" by blast
  from e0 have e0': "evaluate_loop ROOM_POSITIONS 0 5 (total_iterations c) (\<lambda>_. 0) STRATEGY_NAMES h []
      = (h1, Returned d0)" by (simp add: evaluate_all_strategies_def)
  from evaluate_loop_noise [OF e0' refl, of "tie_noise i"]
  obtain d where e: "evaluate_loop ROOM_POSITIONS 0 5 (total_iterations c) (tie_noise i) STRATEGY_NAMES h []
      = (h1, Returned d)"
    and k: "map fst d = map fst d0"
    and v: "\<forall>k. dict_get d k 0 - dict_get d0 k 0 = tie_noise i k"
    by (auto simp: set_STRATEGY_NAMES)
  have n: "tie_noise i k = dict_get (tie_values i) k 0 - dict_get d0 k 0" for k
    by (simp add: tie_noise_def assms e0)
  from v n have "\<forall>k. dict_get d k 0 = dict_get (tie_values i) k 0" by (simp add: algebra_simps)
  moreover from k k0 have "map fst d = map fst (tie_values i)" by (simp add: tie_values_keys)
  moreover from k k0 have "distinct (map fst d)" by (simp add: distinct_STRATEGY_NAMES)
  ultimately have "d = tie_values i" by (intro dict_eqI) simp_all
  with e e0 assms show ?thesis by (simp add: evaluate_all_strategies_def)
qed

lemma tie_plan_rounds:
  "plan_rounds ROOM_POSITIONS 0 tie_noise (\<lambda>_. PARALLEL_CRITICAL) [i..<i + n]
       (fst (tie_run i)) (snd (tie_run i)) svals
     = (fst (tie_run (i + n)), snd (tie_run (i + n)),
        Returned (if n = 0 then svals else tie_values (i + n - 1)))"
proof (induction n arbitrary: i svals)
  case 0
  show ?case by simp
next
  case (Suc n)
  obtain h c where t: "tie_run i = (h, c)" by (cases "tie_run i")
  have l: "[i..<i + Suc n] = i # [Suc i..<Suc i + n]" by (simp add: upt_conv_Cons)
  have s: "snd (tie_run (Suc i)) = plan_round c (tie_values i) PARALLEL_CRITICAL"
    by (simp add: t)
  from Suc.IH [of "Suc i" "tie_values i"] tie_round [OF t] t s
  show ?case unfolding l by (cases n) simp_all
qed

lemma tie_learner:
  "i \<le> 19 \<Longrightarrow> (\<forall>s. dict_get (regret_sum (snd (tie_run i))) s 0 \<le> 0)
     \<and> (\<forall>k. dict_get (strategy_sum (snd (tie_run i))) k 0 = real i / 6)"
proof (induction i)
  case 0
  show ?case by (simp add: cfr_init_def dict_get_def)
next
  case (Suc i)
  obtain h c where t: "tie_run i = (h, c)" by (cases "tie_run i")
  from Suc t have r: "\<forall>s. dict_get (regret_sum c) s 0 \<le> 0"
    and s: "\<forall>k. dict_get (strategy_sum c) k 0 = real i / 6" by simp_all
  from Suc.prems have v: "tie_values i = zero_values" by (simp add: tie_values_def)
  from plan_round_sum_flat [OF r zero_values_keys, of PARALLEL_CRITICAL] s r t v
  show ?case by (simp add: plan_round_zero_regret add_divide_distrib)
qed

lemma tie_sum:
  "strategy_sum (snd (tie_run 20)) = map (\<lambda>s. (s, 10 / 3)) STRATEGY_NAMES"
proof -
  obtain h c where t: "tie_run 19 = (h, c)" by (cases "tie_run 19")
  let ?c = "plan_round c final_values PARALLEL_CRITICAL"
  have "tie_run 20 = tie_run (Suc 19)" by simp
  then have c20: "snd (tie_run 20) = ?c"
    unfolding tie_run.simps t by (simp add: tie_values_def)
  from tie_learner [of 19] t have r: "\<forall>s. dict_get (regret_sum c) s 0 \<le> 0"
    and s: "\<And>k. dict_get (strategy_sum c) k 0 = 19 / 6" by simp_all
  have vals: "dict_get (strategy_sum ?c) k 0 = 10 / 3" for k
    using plan_round_sum_flat [OF r final_values_keys, of PARALLEL_CRITICAL k] s [of k] by simp
  from tie_run_ok [of 20] c20 have "reachable_cfr ?c" by (simp add: learner_ok_def)
  then have inv: "sum_inv ?c" by (rule reachable_sum_inv)
  have hist: "iteration_history ?c \<noteq> []" by (rule plan_round_history)
  from inv hist have keys: "map fst (strategy_sum ?c) = STRATEGY_NAMES" by (simp add: sum_inv_def)
  have "strategy_sum ?c = map (\<lambda>s. (s, 10 / 3)) STRATEGY_NAMES"
  proof (rule dict_eqI)
    show "map fst (strategy_sum ?c) = map fst (map (\<lambda>s. (s, 10 / 3 :: real)) STRATEGY_NAMES)"
      by (simp add: keys comp_def)
    show "distinct (map fst (strategy_sum ?c))" by (simp add: keys distinct_STRATEGY_NAMES)
    show "\<forall>k. dict_get (strategy_sum ?c) k 0 = dict_get (map (\<lambda>s. (s, 10 / 3)) STRATEGY_NAMES) k 0"
    proof
      fix k :: strategy
      have "dict_get (map (\<lambda>s. (s, 10 / 3 :: real)) STRATEGY_NAMES) k 0 = 10 / 3"
        by (cases k) (simp_all add: dict_get_def STRATEGY_NAMES_eq)
      then show "dict_get (strategy_sum ?c) k 0 = dict_get (map (\<lambda>s. (s, 10 / 3)) STRATEGY_NAMES) k 0"
        by (simp only: vals)
    qed
  qed
  with c20 show ?thesis by simp
qed

lemma tie_average:
  "get_average_strategy (snd (tie_run 20)) = map (\<lambda>s. (s, 1 / 6)) STRATEGY_NAMES"
  by (simp add: get_average_strategy_def tie_sum STRATEGY_NAMES_eq)

text \<open>
  Claim C1 as stated fails. One Critical patient is spawned and the learner is new. The
  noise is such that in rounds 1 to 19 every strategy has value 0, so no regret arises
  and every round plays the uniform policy, and that in round 20 the values are
  \<open>final_values\<close>, which change the regrets only after the uniform policy of that round
  has been added to the probability sums. All six time-averaged probabilities are
  \<open>1/6\<close>. The latest-round value of COOPERATIVE_ALL is the highest (5), yet the returned
  strategy is PARALLEL_CRITICAL, the first of the catalog, whose latest-round value is
  the lowest (0).
\<close>

theorem latest_value_tie_break_counterexample:
  "(case analyze_and_plan ROOM_POSITIONS spawned_heap spawned_analyzer tie_noise (\<lambda>_. PARALLEL_CRITICAL) of
      (h', az', Returned res) \<Rightarrow>
         plan_strategy res = Chosen PARALLEL_CRITICAL
         \<and> all_strategy_values res = final_values
         \<and> get_average_strategy (cfr az') = map (\<lambda>s. (s, 1 / 6)) STRATEGY_NAMES
    | (h', az', Raised e) \<Rightarrow> False)
   \<and> dict_get final_values PARALLEL_CRITICAL 0 < dict_get final_values COOPERATIVE_ALL 0"
proof -
  have r: "plan_rounds ROOM_POSITIONS 0 tie_noise (\<lambda>_. PARALLEL_CRITICAL) [0..<NUM_CFR_ITERATIONS]
        spawned_heap cfr_init []
      = (fst (tie_run 20), snd (tie_run 20), Returned final_values)"
    unfolding NUM_CFR_ITERATIONS_def
    using tie_plan_rounds [of 0 20 "[]"] by (simp add: tie_values_def)
  have best: "py_max_key (get_average_strategy (snd (tie_run 20))) = Some PARALLEL_CRITICAL"
    by (simp add: tie_average STRATEGY_NAMES_eq)
  have ne: "get_average_strategy (snd (tie_run 20)) \<noteq> []" by (simp add: tie_average STRATEGY_NAMES_eq)
  have "\<exists>res. analyze_and_plan ROOM_POSITIONS spawned_heap spawned_analyzer tie_noise (\<lambda>_. PARALLEL_CRITICAL)
          = (fst (tie_run 20), spawned_analyzer\<lparr>cfr := snd (tie_run 20)\<rparr>, Returned res)
        \<and> plan_strategy res = Chosen PARALLEL_CRITICAL \<and> all_strategy_values res = final_values"
    using r best ne
    by (simp add: analyze_and_plan_def spawned_scenario spawned_heap_eq(2) Let_def split_def)
  then show ?thesis
    by (auto simp: tie_average final_values_def dict_get_def)
qed

end
